theory Spec2Isabelle
  imports Complex_Main "HOL-Library.Word"
begin

section \<open>Failures of the estimator as values\<close>

text \<open>
  The sliding-window estimator of \<^verbatim>\<open>src/vi_estimator/keypoint_vio.cpp\<close> is embedded
  function by function. Every way in which the C++ can leave a function without
  returning normally is a value of \<open>error\<close>; a function that can fail returns
  \<open>error + 'a\<close> with \<open>Inl\<close> for the failure.
\<close>

datatype error =
    AssertFailed      \<comment> \<open>a \<^verbatim>\<open>BASALT_ASSERT\<close> does not hold\<close>
  | OutOfRange        \<comment> \<open>\<^verbatim>\<open>.at(key)\<close> on a map without that key (\<^verbatim>\<open>std::out_of_range\<close>)\<close>
  | OutOfBounds       \<comment> \<open>a vector or iterator read past the end (undefined behaviour)\<close>
  | DivByZero         \<comment> \<open>\<^verbatim>\<open>int / int\<close> with divisor 0 (undefined behaviour)\<close>
  | PoseNotFound      \<comment> \<open>\<^verbatim>\<open>getPoseStateWithLin\<close> on a frame outside the window\<close>
  | UnknownLandmark   \<comment> \<open>\<^verbatim>\<open>addObservation\<close> for a landmark the database does not hold\<close>
  | Diverges          \<comment> \<open>the keyframe-eviction \<^verbatim>\<open>while\<close> loop never ends\<close>

definition bind_res :: "error + 'a \<Rightarrow> ('a \<Rightarrow> error + 'b) \<Rightarrow> error + 'b" where
  "bind_res r f = (case r of Inl e \<Rightarrow> Inl e | Inr x \<Rightarrow> f x)"

definition at_map :: "('k \<rightharpoonup> 'v) \<Rightarrow> 'k \<Rightarrow> error + 'v" where
  \<comment> \<open>\<^verbatim>\<open>m.at(k)\<close>\<close>
  "at_map m k = (case m k of None \<Rightarrow> Inl OutOfRange | Some v \<Rightarrow> Inr v)"

section \<open>Numbers\<close>

text \<open>
  Timestamps are \<^verbatim>\<open>int64_t\<close> values that are only stored and compared; they are
  modelled as \<open>int\<close>. Counters are \<^verbatim>\<open>int\<close> and stay far from the 32-bit bounds; the one
  place where machine arithmetic wraps around visibly, \<^verbatim>\<open>ids.size() - 2\<close> in \<^verbatim>\<open>size_t\<close>,
  is computed on a 64-bit word.

  A \<^verbatim>\<open>double\<close> that the code tests for finiteness is a value of \<open>dbl\<close>: a finite
  number, an infinity or not-a-number. Comparisons follow IEEE 754 (every comparison
  with not-a-number is false). Finite doubles are read as the reals they denote and
  rounding is not modelled.
\<close>

type_synonym vec2 = "real \<times> real"
type_synonym vec3 = "real \<times> real \<times> real"

datatype dbl = Fin real | PInf | NInf | NaN

type_synonym vec4 = "dbl \<times> dbl \<times> dbl \<times> dbl"

fun isFinite :: "dbl \<Rightarrow> bool" where
  "isFinite (Fin x) = True"
| "isFinite PInf = False"
| "isFinite NInf = False"
| "isFinite NaN = False"

fun dbl_less :: "dbl \<Rightarrow> dbl \<Rightarrow> bool" where
  \<comment> \<open>\<^verbatim>\<open>a < b\<close> on doubles\<close>
  "dbl_less (Fin a) (Fin b) = (a < b)"
| "dbl_less (Fin a) PInf = True"
| "dbl_less NInf (Fin b) = True"
| "dbl_less NInf PInf = True"
| "dbl_less a b = False"

definition dbl_div :: "real \<Rightarrow> real \<Rightarrow> dbl" where
  \<comment> \<open>\<^verbatim>\<open>a / b\<close> on finite doubles: \<open>0 / 0\<close> is not-a-number, \<open>a / 0\<close> an infinity\<close>
  "dbl_div a b =
     (if b \<noteq> 0 then Fin (a / b)
      else if a = 0 then NaN else if 0 < a then PInf else NInf)"

definition cpp_div :: "int \<Rightarrow> int \<Rightarrow> error + int" where
  \<comment> \<open>\<^verbatim>\<open>a / b\<close> on \<^verbatim>\<open>int\<close>: the quotient is truncated toward zero\<close>
  "cpp_div a b =
     (if b = 0 then Inl DivByZero else Inr (sgn a * sgn b * (\<bar>a\<bar> div \<bar>b\<bar>)))"

definition size_t_of_int :: "int \<Rightarrow> nat" where
  \<comment> \<open>conversion of an \<^verbatim>\<open>int\<close> to \<^verbatim>\<open>size_t\<close>\<close>
  "size_t_of_int i = nat (i mod 2 ^ 64)"

definition size_minus_2 :: "nat \<Rightarrow> nat" where
  \<comment> \<open>\<^verbatim>\<open>ids.size() - 2\<close> in \<^verbatim>\<open>size_t\<close>, an unsigned 64-bit integer that wraps around\<close>
  "size_minus_2 n = unat ((word_of_nat n :: 64 word) - 2)"

definition norm3 :: "vec3 \<Rightarrow> real" where
  "norm3 v = (case v of (x, y, z) \<Rightarrow> sqrt (x * x + y * y + z * z))"

definition minus3 :: "vec3 \<Rightarrow> vec3 \<Rightarrow> vec3" where
  "minus3 a b = (case a of (x, y, z) \<Rightarrow> case b of (u, v, w) \<Rightarrow> (x - u, y - v, z - w))"

definition DBL_MAX :: real where
  \<comment> \<open>\<^verbatim>\<open>std::numeric_limits<double>::max()\<close>\<close>
  "DBL_MAX = (2 - 1 / 2 ^ 52) * 2 ^ 1023"

definition POSE_SIZE :: nat where "POSE_SIZE = 6"
definition POSE_VEL_BIAS_SIZE :: nat where "POSE_VEL_BIAS_SIZE = 15"

section \<open>Containers\<close>

text \<open>
  A \<^verbatim>\<open>std::map<int64_t, V>\<close> is an association list in increasing key order, a
  \<^verbatim>\<open>std::set<int64_t>\<close> an increasing list; both are iterated front to back, as the C++
  iterates them. Maps that are only looked up and updated are partial functions.
\<close>

type_synonym 'v tmap = "(int \<times> 'v) list"

fun map_put :: "int \<Rightarrow> 'v \<Rightarrow> 'v tmap \<Rightarrow> 'v tmap" where
  \<comment> \<open>\<^verbatim>\<open>m[k] = v\<close>\<close>
  "map_put k v [] = [(k, v)]"
| "map_put k v (kv # xs) =
     (if k < fst kv then (k, v) # kv # xs
      else if k = fst kv then (k, v) # xs
      else kv # map_put k v xs)"

definition map_erase :: "int \<Rightarrow> 'v tmap \<Rightarrow> 'v tmap" where
  \<comment> \<open>\<^verbatim>\<open>m.erase(k)\<close>\<close>
  "map_erase k xs = filter (\<lambda>kv. fst kv \<noteq> k) xs"

definition map_at :: "'v tmap \<Rightarrow> int \<Rightarrow> error + 'v" where
  \<comment> \<open>\<^verbatim>\<open>m.at(k)\<close>\<close>
  "map_at xs k = at_map (map_of xs) k"

fun set_emplace :: "'a::linorder \<Rightarrow> 'a list \<Rightarrow> 'a list" where
  \<comment> \<open>\<^verbatim>\<open>s.emplace(k)\<close>\<close>
  "set_emplace k [] = [k]"
| "set_emplace k (x # xs) =
     (if k < x then k # x # xs else if k = x then x # xs else x # set_emplace k xs)"

definition set_erase :: "int \<Rightarrow> int list \<Rightarrow> int list" where
  \<comment> \<open>\<^verbatim>\<open>s.erase(k)\<close>\<close>
  "set_erase k xs = filter (\<lambda>x. x \<noteq> k) xs"

section \<open>Data model\<close>

record TimeCamId =
  frame_id :: int
  cam_id :: nat

record KeypointObservation =
  kpt_id :: int
  pos :: vec2

record KeypointPosition =
  kf_id :: TimeCamId
  dir :: vec2
  id_inv_depth :: real   \<comment> \<open>the field \<^verbatim>\<open>id\<close>, the inverse depth\<close>

record OpticalFlowResult =
  t_ns :: int
  observations :: "(int \<times> vec2) list list"
    \<comment> \<open>per camera, keypoint id to the translation of its affine transform\<close>

record IntegratedImuMeasurement =
  start_t_ns :: int
  dt_ns :: int
  preintegrated :: "real list"

record Pose =
  translation :: vec3
  rotation :: "real list"

record PoseVelBiasState =
  st_t_ns :: int
  T_w_i :: Pose
  vel_w_i :: vec3
  bias_gyro :: vec3
  bias_accel :: vec3

record PoseVelBiasStateWithLin =
  linearized :: bool
  getState :: PoseVelBiasState

record PoseStateWithLin =
  pose_linearized :: bool
  pose_t_ns :: int
  getPose :: Pose

definition PoseStateWithLin_of :: "PoseVelBiasStateWithLin \<Rightarrow> PoseStateWithLin" where
  \<comment> \<open>the converting constructor \<^verbatim>\<open>PoseStateWithLin(state)\<close> used at lines 756 and in
      \<^verbatim>\<open>getPoseStateWithLin\<close>\<close>
  "PoseStateWithLin_of st =
     \<lparr>pose_linearized = linearized st, pose_t_ns = st_t_ns (getState st),
      getPose = T_w_i (getState st)\<rparr>"

record AbsOrderMap =
  abs_order_map :: "(nat \<times> nat) tmap"
  total_size :: nat
  items :: nat

definition AbsOrderMap_empty :: AbsOrderMap where
  "AbsOrderMap_empty = \<lparr>abs_order_map = [], total_size = 0, items = 0\<rparr>"

subsection \<open>The landmark database\<close>

text \<open>
  Modelled from the spec: the class \<^verbatim>\<open>LandmarkDatabase\<close> is declared and defined outside
  \<^verbatim>\<open>src/\<close>. Section 4.3 of the specification gives its contents and operations:
  landmarks by keypoint id, and observations grouped by the host frame of the landmark
  and then by the target frame.
\<close>

type_synonym obs_map = "(TimeCamId \<times> (TimeCamId \<times> KeypointObservation list) list) list"

record LandmarkDatabase =
  kpts :: "int \<rightharpoonup> KeypointPosition"
  obs :: obs_map

definition addLandmark :: "int \<Rightarrow> KeypointPosition \<Rightarrow> LandmarkDatabase \<Rightarrow> LandmarkDatabase" where
  "addLandmark k p db = db\<lparr>kpts := (kpts db)(k \<mapsto> p)\<rparr>"

fun push_target :: "TimeCamId \<Rightarrow> KeypointObservation \<Rightarrow>
    (TimeCamId \<times> KeypointObservation list) list \<Rightarrow> (TimeCamId \<times> KeypointObservation list) list" where
  "push_target t ob [] = [(t, [ob])]"
| "push_target t ob (e # es) =
     (if fst e = t then (t, snd e @ [ob]) # es else e # push_target t ob es)"

fun push_obs :: "TimeCamId \<Rightarrow> TimeCamId \<Rightarrow> KeypointObservation \<Rightarrow> obs_map \<Rightarrow> obs_map" where
  "push_obs h t ob [] = [(h, [(t, [ob])])]"
| "push_obs h t ob (e # es) =
     (if fst e = h then (h, push_target t ob (snd e)) # es else e # push_obs h t ob es)"

definition addObservation :: "TimeCamId \<Rightarrow> KeypointObservation \<Rightarrow> LandmarkDatabase \<Rightarrow>
    error + LandmarkDatabase" where
  \<comment> \<open>resolves the landmark's host and appends; fails if the landmark is missing\<close>
  "addObservation tcid_target ob db =
     (case kpts db (kpt_id ob) of
        None \<Rightarrow> Inl UnknownLandmark
      | Some lm \<Rightarrow> Inr (db\<lparr>obs := push_obs (kf_id lm) tcid_target ob (obs db)\<rparr>))"

definition observed :: "obs_map \<Rightarrow> int \<Rightarrow> bool" where
  \<comment> \<open>some observation of keypoint \<open>k\<close> remains\<close>
  "observed om k =
     (\<exists>h \<in> set om. \<exists>t \<in> set (snd h). \<exists>ob \<in> set (snd t). kpt_id ob = k)"

definition removeKeyframes :: "int list \<Rightarrow> int list \<Rightarrow> int list \<Rightarrow> LandmarkDatabase \<Rightarrow>
    LandmarkDatabase" where
  \<comment> \<open>observation groups of a host in \<open>kfs_to_marg\<close> go with the landmarks hosted there;
      of the other groups the observations from a target in \<open>poses_to_marg\<close> or
      \<open>states_to_marg_all\<close> go; landmarks left without observation are dropped\<close>
  "removeKeyframes kfs_to_marg poses_to_marg states_to_marg_all db =
     (let om1 = filter (\<lambda>h. frame_id (fst h) \<notin> set kfs_to_marg) (obs db);
          om2 = map (\<lambda>h. (fst h,
                  filter (\<lambda>t. frame_id (fst t) \<notin> set poses_to_marg \<and>
                               frame_id (fst t) \<notin> set states_to_marg_all) (snd h))) om1
      in \<lparr>kpts = (\<lambda>k. case kpts db k of
                      None \<Rightarrow> None
                    | Some lm \<Rightarrow>
                        if frame_id (kf_id lm) \<in> set kfs_to_marg \<or> \<not> observed om2 k
                        then None else Some lm),
          obs = om2\<rparr>)"

subsection \<open>Configuration and estimator state\<close>

record VioConfig =
  vio_lm_lambda_min :: real
  vio_lm_lambda_max :: real
  vio_init_pose_weight :: real
  vio_init_ba_weight :: real
  vio_init_bg_weight :: real
  vio_max_states :: int
  vio_max_kfs :: int
  vio_new_kf_keypoints_thresh :: real
  vio_min_frames_after_kf :: int
  vio_min_triangulation_dist :: real
  vio_max_iterations :: int
  vio_use_lm :: bool
  vio_filter_iteration :: int

record estimator =
  take_kf :: bool
  frames_after_kf :: int
  initialized :: bool
  config :: VioConfig
  lambda :: real
  min_lambda :: real
  max_lambda :: real
  lambda_vee :: real
  marg_H :: "real list list"
  marg_b :: "real list"
  marg_order :: AbsOrderMap
  max_states :: nat
  max_kfs :: nat
  opt_started :: bool
  last_state_t_ns :: int
  frame_states :: "PoseVelBiasStateWithLin tmap"
  frame_poses :: "PoseStateWithLin tmap"
  kf_ids :: "int list"
  num_points_kf :: "int \<rightharpoonup> int"
  imu_meas :: "IntegratedImuMeasurement tmap"
  prev_opt_flow_res :: "OpticalFlowResult tmap"
  lmdb :: LandmarkDatabase

text \<open>
  The numerical collaborators of the estimator (camera models, preintegration, the
  linearisers, the dense solver, the Schur complement) are defined outside \<^verbatim>\<open>src/\<close>.
  They are parameters of the model, collected in \<open>kernels\<close>; a linearised system is
  the record \<open>linearization\<close> of what the optimiser reads from it.
\<close>

record linearization =
  rld_error :: real
  imu_error :: real
  marg_prior_error :: real
  ba_error :: real
  bg_error :: real
  Hdiag :: "real list"
  solve :: "real list \<Rightarrow> real list"
  point_update :: "real list \<Rightarrow> int \<Rightarrow> KeypointPosition \<Rightarrow> vec2 \<times> real"

record kernels =
  predictState :: "IntegratedImuMeasurement \<Rightarrow> PoseVelBiasState \<Rightarrow> PoseVelBiasState"
  unproject :: "nat \<Rightarrow> vec2 \<Rightarrow> bool \<times> real list"
  rel_pose :: "Pose \<Rightarrow> Pose \<Rightarrow> nat \<Rightarrow> Pose"
  triangulate :: "real list \<Rightarrow> real list \<Rightarrow> Pose \<Rightarrow> vec4"
  stereographic_project :: "vec4 \<Rightarrow> vec2"
  linearize :: "AbsOrderMap \<Rightarrow> estimator \<Rightarrow> linearization"
  pose_applyInc :: "real list \<Rightarrow> PoseStateWithLin \<Rightarrow> PoseStateWithLin"
  state_applyInc :: "real list \<Rightarrow> PoseVelBiasStateWithLin \<Rightarrow> PoseVelBiasStateWithLin"
  computeError :: "estimator \<Rightarrow> real"
  computeImuError :: "AbsOrderMap \<Rightarrow> estimator \<Rightarrow> real \<times> real \<times> real"
  computeMargPriorError :: "estimator \<Rightarrow> real"
  filterOutliers :: "estimator \<Rightarrow> LandmarkDatabase"
  marginalizeHelper :: "AbsOrderMap \<Rightarrow> obs_map \<Rightarrow> nat list \<Rightarrow> nat list \<Rightarrow> estimator \<Rightarrow>
     real list list \<times> real list"
  computeDelta :: "AbsOrderMap \<Rightarrow> estimator \<Rightarrow> real list"

section \<open>Construction and initialisation (lines 49--121 and 158--193)\<close>

definition diag_matrix :: "real list \<Rightarrow> real list list" where
  "diag_matrix d =
     map (\<lambda>i. map (\<lambda>j. if i = j then d ! i else 0) [0..<length d]) [0..<length d]"

definition KeypointVioEstimator :: "VioConfig \<Rightarrow> estimator" where
  \<comment> \<open>\<^verbatim>\<open>last_state_t_ns\<close> has no initialiser; \<^verbatim>\<open>initialize\<close> writes it before it is read\<close>
  "KeypointVioEstimator cfg =
     \<lparr>take_kf = True,
      frames_after_kf = 0,
      initialized = False,
      config = cfg,
      lambda = vio_lm_lambda_min cfg,
      min_lambda = vio_lm_lambda_min cfg,
      max_lambda = vio_lm_lambda_max cfg,
      lambda_vee = 2,
      marg_H = diag_matrix
        [vio_init_pose_weight cfg, vio_init_pose_weight cfg, vio_init_pose_weight cfg,
         0, 0, vio_init_pose_weight cfg, 0, 0, 0,
         vio_init_ba_weight cfg, vio_init_ba_weight cfg, vio_init_ba_weight cfg,
         vio_init_bg_weight cfg, vio_init_bg_weight cfg, vio_init_bg_weight cfg],
      marg_b = replicate POSE_VEL_BIAS_SIZE 0,
      marg_order = AbsOrderMap_empty,
      max_states = size_t_of_int (vio_max_states cfg),
      max_kfs = size_t_of_int (vio_max_kfs cfg),
      opt_started = False,
      last_state_t_ns = 0,
      frame_states = [],
      frame_poses = [],
      kf_ids = [],
      num_points_kf = Map.empty,
      imu_meas = [],
      prev_opt_flow_res = [],
      lmdb = \<lparr>kpts = Map.empty, obs = []\<rparr>\<rparr>"

definition initialize :: "int \<Rightarrow> Pose \<Rightarrow> vec3 \<Rightarrow> vec3 \<Rightarrow> vec3 \<Rightarrow> estimator \<Rightarrow> estimator" where
  \<comment> \<open>\<^verbatim>\<open>initialize(t_ns, T_w_i, vel_w_i, bg, ba)\<close>; the worker does the same at the first
      frame when the estimator is not yet initialised (lines 158--193)\<close>
  "initialize t T v bg ba s =
     s\<lparr>initialized := True,
       last_state_t_ns := t,
       imu_meas := map_put t \<lparr>start_t_ns = t, dt_ns = 0, preintegrated = []\<rparr> (imu_meas s),
       frame_states := map_put t
         \<lparr>linearized = True,
          getState = \<lparr>st_t_ns = t, T_w_i = T, vel_w_i = v, bias_gyro = bg, bias_accel = ba\<rparr>\<rparr>
         (frame_states s),
       marg_order := \<lparr>abs_order_map =
                        map_put t (0, POSE_VEL_BIAS_SIZE) (abs_order_map (marg_order s)),
                      total_size = POSE_VEL_BIAS_SIZE, items = 1\<rparr>\<rparr>"

section \<open>\<^verbatim>\<open>measure\<close> (lines 262--482)\<close>

subsection \<open>State propagation (lines 265--288)\<close>

definition propagate :: "kernels \<Rightarrow> OpticalFlowResult \<Rightarrow> IntegratedImuMeasurement option \<Rightarrow>
    estimator \<Rightarrow> error + estimator" where
  \<comment> \<open>the first assertion reads \<^verbatim>\<open>frame_states[last_state_t_ns]\<close>; for a missing key that
      is a default-constructed state, taken here to fail the assertion\<close>
  "propagate k f meas s =
     (case meas of
        None \<Rightarrow> Inr s
      | Some m \<Rightarrow>
         (case map_of (frame_states s) (last_state_t_ns s) of
            None \<Rightarrow> Inl AssertFailed
          | Some ls \<Rightarrow>
              if st_t_ns (getState ls) \<noteq> start_t_ns m then Inl AssertFailed
              else if t_ns f \<noteq> dt_ns m + start_t_ns m then Inl AssertFailed
              else
                let next_state = (predictState k m (getState ls))\<lparr>st_t_ns := t_ns f\<rparr>
                in Inr (s\<lparr>last_state_t_ns := t_ns f,
                          frame_states := map_put (t_ns f)
                            \<lparr>linearized = False, getState = next_state\<rparr> (frame_states s),
                          imu_meas := map_put (start_t_ns m) m (imu_meas s)\<rparr>)))"

subsection \<open>Data association (lines 293--333)\<close>

record association =
  connected0 :: int
  num_points_connected :: "int \<rightharpoonup> int"
  unconnected_obs0 :: "int list"
    \<comment> \<open>a \<^verbatim>\<open>std::unordered_set<int>\<close>; its iteration order is unspecified, the model
        takes the order of insertion\<close>

definition association_empty :: association where
  "association_empty = \<lparr>connected0 = 0, num_points_connected = Map.empty, unconnected_obs0 = []\<rparr>"

definition count_up :: "(int \<rightharpoonup> int) \<Rightarrow> int \<Rightarrow> (int \<rightharpoonup> int)" where
  \<comment> \<open>lines 319--322\<close>
  "count_up m h = m(h \<mapsto> (case m h of None \<Rightarrow> 0 | Some c \<Rightarrow> c) + 1)"

fun associate_obs :: "TimeCamId \<Rightarrow> (int \<times> vec2) list \<Rightarrow> association \<times> LandmarkDatabase \<Rightarrow>
    error + association \<times> LandmarkDatabase" where
  \<comment> \<open>the inner loop, lines 304--332; \<^verbatim>\<open>landmarkExists\<close> and \<^verbatim>\<open>getLandmark\<close> are the
      lookup in \<open>kpts\<close>\<close>
  "associate_obs tcid_target [] st = Inr st"
| "associate_obs tcid_target (kv_obs # rest) st =
     (let a = fst st; db = snd st; kpt = fst kv_obs in
      case kpts db kpt of
        Some lm \<Rightarrow>
          (case addObservation tcid_target \<lparr>kpt_id = kpt, pos = snd kv_obs\<rparr> db of
             Inl e \<Rightarrow> Inl e
           | Inr db' \<Rightarrow>
               associate_obs tcid_target rest
                 (a\<lparr>num_points_connected :=
                       count_up (num_points_connected a) (frame_id (kf_id lm)),
                    connected0 :=
                       (if cam_id tcid_target = 0 then connected0 a + 1 else connected0 a)\<rparr>,
                  db'))
      | None \<Rightarrow>
          associate_obs tcid_target rest
            (if cam_id tcid_target = 0 \<and> kpt \<notin> set (unconnected_obs0 a)
             then a\<lparr>unconnected_obs0 := unconnected_obs0 a @ [kpt]\<rparr> else a, db))"

fun associate_cams :: "int \<Rightarrow> nat \<Rightarrow> (int \<times> vec2) list list \<Rightarrow> association \<times> LandmarkDatabase \<Rightarrow>
    error + association \<times> LandmarkDatabase" where
  "associate_cams t cam [] st = Inr st"
| "associate_cams t cam (m # ms) st =
     (case associate_obs \<lparr>frame_id = t, cam_id = cam\<rparr> m st of
        Inl e \<Rightarrow> Inl e
      | Inr st' \<Rightarrow> associate_cams t (cam + 1) ms st')"

subsection \<open>Keyframe decision (lines 337--341)\<close>

definition keyframe_ratio_low :: "VioConfig \<Rightarrow> int \<Rightarrow> nat \<Rightarrow> bool" where
  \<comment> \<open>\<^verbatim>\<open>double(connected0) / (connected0 + unconnected_obs0.size()) < thresh\<close>; the sum
      is formed in \<^verbatim>\<open>size_t\<close>\<close>
  "keyframe_ratio_low cfg c0 n_unconnected =
     dbl_less
       (dbl_div (real_of_int c0) (real (size_t_of_int (c0 + int n_unconnected))))
       (Fin (vio_new_kf_keypoints_thresh cfg))"

definition decide_take_kf :: "association \<Rightarrow> estimator \<Rightarrow> estimator" where
  "decide_take_kf a s =
     (if keyframe_ratio_low (config s) (connected0 a) (length (unconnected_obs0 a)) \<and>
         frames_after_kf s > vio_min_frames_after_kf (config s)
      then s\<lparr>take_kf := True\<rparr> else s)"

subsection \<open>Triangulation of the new keypoints (lines 358--436)\<close>

definition getPoseStateWithLin :: "estimator \<Rightarrow> int \<Rightarrow> error + PoseStateWithLin" where
  \<comment> \<open>declared outside \<^verbatim>\<open>src/\<close>: the pose of a frame of the window, kept in
      \<^verbatim>\<open>frame_poses\<close> or in \<^verbatim>\<open>frame_states\<close>; a frame in neither is fatal\<close>
  "getPoseStateWithLin s t =
     (case map_of (frame_poses s) t of
        Some p \<Rightarrow> Inr p
      | None \<Rightarrow>
         (case map_of (frame_states s) t of
            Some st \<Rightarrow> Inr (PoseStateWithLin_of st)
          | None \<Rightarrow> Inl PoseNotFound))"

fun collect_cams :: "int \<Rightarrow> int \<Rightarrow> nat \<Rightarrow> (int \<times> vec2) list list \<Rightarrow>
    (TimeCamId \<times> KeypointObservation) list" where
  "collect_cams lm_id t k [] = []"
| "collect_cams lm_id t k (m # ms) =
     (case map_of m lm_id of
        None \<Rightarrow> []
      | Some p \<Rightarrow> [(\<lparr>frame_id = t, cam_id = k\<rparr>, \<lparr>kpt_id = lm_id, pos = p\<rparr>)])
     @ collect_cams lm_id t (k + 1) ms"

definition collect_kp_obs :: "int \<Rightarrow> OpticalFlowResult tmap \<Rightarrow>
    (TimeCamId \<times> KeypointObservation) list" where
  \<comment> \<open>lines 361--377; \<^verbatim>\<open>kp_obs\<close> is a \<^verbatim>\<open>std::map\<close> keyed by \<^verbatim>\<open>TimeCamId\<close>, whose order (frame,
      then camera) is the order in which the entries are collected\<close>
  "collect_kp_obs lm_id prev =
     concat (map (\<lambda>kv. collect_cams lm_id (fst kv) 0 (observations (snd kv))) prev)"

definition vec_at :: "'a list \<Rightarrow> nat \<Rightarrow> error + 'a" where
  \<comment> \<open>\<^verbatim>\<open>v.at(i)\<close> and \<^verbatim>\<open>v[i]\<close>: the first throws, the second is undefined past the end\<close>
  "vec_at xs i = (if i < length xs then Inr (xs ! i) else Inl OutOfBounds)"

definition squaredNorm :: "vec3 \<Rightarrow> real" where
  "squaredNorm v = (case v of (x, y, z) \<Rightarrow> x * x + y * y + z * z)"

definition min_triang_distance2 :: "VioConfig \<Rightarrow> real" where
  "min_triang_distance2 cfg = vio_min_triangulation_dist cfg * vio_min_triangulation_dist cfg"

definition triangulation_accepted :: "vec4 \<Rightarrow> bool" where
  \<comment> \<open>the condition of the \<^verbatim>\<open>if\<close> at lines 414--416\<close>
  "triangulation_accepted p =
     (case p of (x, y, z, w) \<Rightarrow>
        (isFinite x \<and> isFinite y \<and> isFinite z \<and> isFinite w) \<and>
        dbl_less (Fin 0) w \<and> dbl_less w (Fin 3))"

definition triangulate_candidate :: "kernels \<Rightarrow> estimator \<Rightarrow> OpticalFlowResult \<Rightarrow> int \<Rightarrow> TimeCamId \<Rightarrow>
    error + vec4 option" where
  \<comment> \<open>lines 385--412 of the loop body: \<open>None\<close> when a \<^verbatim>\<open>continue\<close> passes the candidate
      over, otherwise the point \<^verbatim>\<open>p0_triangulated\<close>\<close>
  "triangulate_candidate k s f lm_id tcido =
     bind_res (vec_at (observations f) 0) (\<lambda>m0.
     bind_res (at_map (map_of m0) lm_id) (\<lambda>p0.
     bind_res (map_at (prev_opt_flow_res s) (frame_id tcido)) (\<lambda>fo.
     bind_res (vec_at (observations fo) (cam_id tcido)) (\<lambda>m1.
     bind_res (at_map (map_of m1) lm_id) (\<lambda>p1.
       if \<not> fst (unproject k 0 p0) \<or> \<not> fst (unproject k (cam_id tcido) p1) then Inr None
       else
         bind_res (getPoseStateWithLin s (t_ns f)) (\<lambda>pl.
         bind_res (getPoseStateWithLin s (frame_id tcido)) (\<lambda>po.
           if squaredNorm (translation (rel_pose k (getPose pl) (getPose po) (cam_id tcido)))
                < min_triang_distance2 (config s)
           then Inr None
           else Inr (Some (triangulate k (snd (unproject k 0 p0))
                             (snd (unproject k (cam_id tcido) p1))
                             (rel_pose k (getPose pl) (getPose po) (cam_id tcido)))))))))))"

definition try_candidate :: "kernels \<Rightarrow> estimator \<Rightarrow> OpticalFlowResult \<Rightarrow> int \<Rightarrow> TimeCamId \<Rightarrow>
    error + vec4 option" where
  \<comment> \<open>one pass of the loop body, lines 385--428: \<open>Some p\<close> when the candidate gives the
      accepted point \<open>p\<close>, \<open>None\<close> when the candidate is passed over or its point rejected\<close>
  "try_candidate k s f lm_id tcido =
     bind_res (triangulate_candidate k s f lm_id tcido) (\<lambda>r.
       case r of
         None \<Rightarrow> Inr None
       | Some p0_triangulated \<Rightarrow>
           if triangulation_accepted p0_triangulated then Inr (Some p0_triangulated)
           else Inr None)"

fun triangulate_candidates :: "kernels \<Rightarrow> estimator \<Rightarrow> OpticalFlowResult \<Rightarrow> int \<Rightarrow>
    (TimeCamId \<times> KeypointObservation) list \<Rightarrow> error + vec4 option" where
  \<comment> \<open>the loop of lines 383--429 over \<^verbatim>\<open>kp_obs\<close>; it stops at the first accepted point\<close>
  "triangulate_candidates k s f lm_id [] = Inr None"
| "triangulate_candidates k s f lm_id (kv_obs # rest) =
     (case try_candidate k s f lm_id (fst kv_obs) of
        Inl e \<Rightarrow> Inl e
      | Inr (Some p) \<Rightarrow> Inr (Some p)
      | Inr None \<Rightarrow> triangulate_candidates k s f lm_id rest)"

fun dbl_value :: "dbl \<Rightarrow> real" where
  "dbl_value (Fin x) = x"
| "dbl_value a = 0"

fun add_observations :: "(TimeCamId \<times> KeypointObservation) list \<Rightarrow> LandmarkDatabase \<Rightarrow>
    error + LandmarkDatabase" where
  \<comment> \<open>lines 431--435\<close>
  "add_observations [] db = Inr db"
| "add_observations (kv_obs # rest) db =
     (case addObservation (fst kv_obs) (snd kv_obs) db of
        Inl e \<Rightarrow> Inl e
      | Inr db' \<Rightarrow> add_observations rest db')"

definition triangulate_landmark :: "kernels \<Rightarrow> OpticalFlowResult \<Rightarrow> int \<Rightarrow> estimator \<times> int \<Rightarrow>
    error + estimator \<times> int" where
  \<comment> \<open>the body of the loop over \<^verbatim>\<open>unconnected_obs0\<close>, lines 359--436; the second component
      is \<^verbatim>\<open>num_points_added\<close>\<close>
  "triangulate_landmark k f lm_id sn =
     (let s = fst sn; kp_obs = collect_kp_obs lm_id (prev_opt_flow_res s) in
      bind_res (triangulate_candidates k s f lm_id kp_obs) (\<lambda>r.
        case r of
          None \<Rightarrow> Inr sn
        | Some p \<Rightarrow>
            bind_res
              (add_observations kp_obs
                 (addLandmark lm_id
                    \<lparr>kf_id = \<lparr>frame_id = t_ns f, cam_id = 0\<rparr>,
                     dir = stereographic_project k p,
                     id_inv_depth = dbl_value (snd (snd (snd p)))\<rparr>
                    (lmdb s)))
              (\<lambda>db. Inr (s\<lparr>lmdb := db\<rparr>, snd sn + 1))))"

fun triangulate_all :: "kernels \<Rightarrow> OpticalFlowResult \<Rightarrow> int list \<Rightarrow> estimator \<times> int \<Rightarrow>
    error + estimator \<times> int" where
  "triangulate_all k f [] sn = Inr sn"
| "triangulate_all k f (lm_id # rest) sn =
     (case triangulate_landmark k f lm_id sn of
        Inl e \<Rightarrow> Inl e
      | Inr sn' \<Rightarrow> triangulate_all k f rest sn')"

definition keyframe_step :: "kernels \<Rightarrow> OpticalFlowResult \<Rightarrow> association \<Rightarrow> estimator \<Rightarrow>
    error + estimator" where
  \<comment> \<open>lines 348--442\<close>
  "keyframe_step k f a s =
     (if take_kf s then
        bind_res
          (triangulate_all k f (unconnected_obs0 a)
             (s\<lparr>take_kf := False, frames_after_kf := 0,
                kf_ids := set_emplace (last_state_t_ns s) (kf_ids s)\<rparr>, 0))
          (\<lambda>sn. Inr ((fst sn)\<lparr>num_points_kf := (num_points_kf (fst sn))(t_ns f \<mapsto> snd sn)\<rparr>))
      else Inr (s\<lparr>frames_after_kf := frames_after_kf s + 1\<rparr>))"

section \<open>\<^verbatim>\<open>optimize\<close> (lines 810--1054)\<close>

subsection \<open>The variable order (lines 819--843)\<close>

definition same_order :: "AbsOrderMap \<Rightarrow> AbsOrderMap \<Rightarrow> int \<Rightarrow> error + unit" where
  \<comment> \<open>\<^verbatim>\<open>BASALT_ASSERT(marg_order.abs_order_map.at(k) == aom.abs_order_map.at(k))\<close>\<close>
  "same_order mo aom k =
     bind_res (map_at (abs_order_map mo) k) (\<lambda>a.
     bind_res (map_at (abs_order_map aom) k) (\<lambda>b.
     if a = b then Inr () else Inl AssertFailed))"

definition aom_append :: "int \<Rightarrow> nat \<Rightarrow> AbsOrderMap \<Rightarrow> AbsOrderMap" where
  \<comment> \<open>\<^verbatim>\<open>aom.abs_order_map[k] = std::make_pair(aom.total_size, size)\<close>\<close>
  "aom_append k sz aom =
     aom\<lparr>abs_order_map := map_put k (total_size aom, sz) (abs_order_map aom)\<rparr>"

definition aom_advance :: "nat \<Rightarrow> AbsOrderMap \<Rightarrow> AbsOrderMap" where
  \<comment> \<open>\<^verbatim>\<open>aom.total_size += size; aom.items++\<close>\<close>
  "aom_advance sz aom = aom\<lparr>total_size := total_size aom + sz, items := items aom + 1\<rparr>"

fun aom_poses :: "AbsOrderMap \<Rightarrow> int list \<Rightarrow> AbsOrderMap \<Rightarrow> error + AbsOrderMap" where
  "aom_poses mo [] aom = Inr aom"
| "aom_poses mo (k # ks) aom =
     (case same_order mo (aom_append k POSE_SIZE aom) k of
        Inl e \<Rightarrow> Inl e
      | Inr u \<Rightarrow> aom_poses mo ks (aom_advance POSE_SIZE (aom_append k POSE_SIZE aom)))"

definition check_state_order :: "AbsOrderMap \<Rightarrow> AbsOrderMap \<Rightarrow> int \<Rightarrow> error + unit" where
  \<comment> \<open>the guarded assertion of lines 536--538 and 837--839\<close>
  "check_state_order mo aom k =
     (if items aom < length (abs_order_map mo) then same_order mo aom k else Inr ())"

fun aom_states :: "AbsOrderMap \<Rightarrow> int list \<Rightarrow> AbsOrderMap \<Rightarrow> error + AbsOrderMap" where
  "aom_states mo [] aom = Inr aom"
| "aom_states mo (k # ks) aom =
     (case check_state_order mo (aom_append k POSE_VEL_BIAS_SIZE aom) k of
        Inl e \<Rightarrow> Inl e
      | Inr u \<Rightarrow>
          aom_states mo ks
            (aom_advance POSE_VEL_BIAS_SIZE (aom_append k POSE_VEL_BIAS_SIZE aom)))"

subsection \<open>One damping trial (lines 886--955)\<close>

definition segment :: "real list \<Rightarrow> nat \<Rightarrow> nat \<Rightarrow> real list" where
  \<comment> \<open>\<^verbatim>\<open>-inc.segment<n>(idx)\<close>\<close>
  "segment inc idx n = map uminus (take n (drop idx inc))"

fun apply_poses :: "kernels \<Rightarrow> AbsOrderMap \<Rightarrow> real list \<Rightarrow> PoseStateWithLin tmap \<Rightarrow>
    error + PoseStateWithLin tmap" where
  "apply_poses k aom inc [] = Inr []"
| "apply_poses k aom inc (kv # rest) =
     (case map_at (abs_order_map aom) (fst kv) of
        Inl e \<Rightarrow> Inl e
      | Inr ent \<Rightarrow>
         (case apply_poses k aom inc rest of
            Inl e \<Rightarrow> Inl e
          | Inr rest' \<Rightarrow>
              Inr ((fst kv, pose_applyInc k (segment inc (fst ent) POSE_SIZE) (snd kv)) # rest')))"

fun apply_states :: "kernels \<Rightarrow> AbsOrderMap \<Rightarrow> real list \<Rightarrow> PoseVelBiasStateWithLin tmap \<Rightarrow>
    error + PoseVelBiasStateWithLin tmap" where
  "apply_states k aom inc [] = Inr []"
| "apply_states k aom inc (kv # rest) =
     (case map_at (abs_order_map aom) (fst kv) of
        Inl e \<Rightarrow> Inl e
      | Inr ent \<Rightarrow>
         (case apply_states k aom inc rest of
            Inl e \<Rightarrow> Inl e
          | Inr rest' \<Rightarrow>
              Inr ((fst kv,
                    state_applyInc k (segment inc (fst ent) POSE_VEL_BIAS_SIZE) (snd kv)) # rest')))"

definition update_points :: "linearization \<Rightarrow> real list \<Rightarrow> LandmarkDatabase \<Rightarrow> LandmarkDatabase" where
  \<comment> \<open>\<^verbatim>\<open>updatePoints\<close> moves the direction and the inverse depth of landmarks\<close>
  "update_points lin inc db =
     db\<lparr>kpts := (\<lambda>i. case kpts db i of
                        None \<Rightarrow> None
                      | Some lm \<Rightarrow>
                          Some (lm\<lparr>dir := fst (point_update lin inc i lm),
                                   id_inv_depth := snd (point_update lin inc i lm)\<rparr>))\<rparr>"

definition apply_increment :: "kernels \<Rightarrow> AbsOrderMap \<Rightarrow> linearization \<Rightarrow> real list \<Rightarrow> estimator \<Rightarrow>
    error + estimator" where
  \<comment> \<open>lines 896--916 and 970--990\<close>
  "apply_increment k aom lin inc s =
     bind_res (apply_poses k aom inc (frame_poses s)) (\<lambda>ps.
     bind_res (apply_states k aom inc (frame_states s)) (\<lambda>ss.
     Inr (s\<lparr>frame_poses := ps, frame_states := ss, lmdb := update_points lin inc (lmdb s)\<rparr>)))"

definition maxCoeff :: "real list \<Rightarrow> error + real" where
  \<comment> \<open>\<^verbatim>\<open>inc.array().abs().maxCoeff()\<close>; an empty vector has no largest coefficient\<close>
  "maxCoeff inc = (if inc = [] then Inl OutOfBounds else Inr (fold max (map abs inc) 0))"

definition error_total :: "linearization \<Rightarrow> real" where
  \<comment> \<open>line 871\<close>
  "error_total lin =
     rld_error lin + imu_error lin + marg_prior_error lin + ba_error lin + bg_error lin"

definition after_error_total :: "kernels \<Rightarrow> AbsOrderMap \<Rightarrow> estimator \<Rightarrow> real" where
  \<comment> \<open>lines 918--931: vision, IMU, marginalisation prior and the two bias random walks\<close>
  "after_error_total k aom s =
     (case computeImuError k aom s of (after_update_imu_error, after_bg_error, after_ba_error) \<Rightarrow>
        computeError k s + after_update_imu_error + computeMargPriorError k s
        + after_bg_error + after_ba_error)"

definition damped :: "real list \<Rightarrow> real \<Rightarrow> real \<Rightarrow> real list" where
  \<comment> \<open>lines 886--888\<close>
  "damped hdiag l min_l = map (\<lambda>h. max (h * l) min_l) hdiag"

definition lm_trial :: "kernels \<Rightarrow> AbsOrderMap \<Rightarrow> linearization \<Rightarrow> estimator \<times> bool \<times> bool \<Rightarrow>
    error + estimator \<times> bool \<times> bool" where
  \<comment> \<open>the state is the estimator with the flags \<^verbatim>\<open>step\<close> and \<^verbatim>\<open>converged\<close>; \<^verbatim>\<open>backup()\<close> and
      \<^verbatim>\<open>restore()\<close> keep and bring back the live variables, here the estimator before
      the increment\<close>
  "lm_trial k aom lin st =
     (case st of (s, step, converged) \<Rightarrow>
        let inc = solve lin (damped (Hdiag lin) (lambda s) (min_lambda s)) in
        bind_res (maxCoeff inc) (\<lambda>max_inc.
        let converged' = (converged \<or> max_inc < 1 / 10 ^ 4) in
        bind_res (apply_increment k aom lin inc s) (\<lambda>s1.
        let f_diff = error_total lin - after_error_total k aom s1 in
        if f_diff < 0 then
          Inr (s\<lparr>lambda := min (max_lambda s) (lambda_vee s * lambda s),
                 lambda_vee := lambda_vee s * 2\<rparr>, step, converged')
        else
          Inr (s1\<lparr>lambda := max (min_lambda s) (lambda s / 3), lambda_vee := 2\<rparr>,
               True, converged'))))"

fun lm_loop :: "kernels \<Rightarrow> AbsOrderMap \<Rightarrow> linearization \<Rightarrow> nat \<Rightarrow> estimator \<times> bool \<times> bool \<Rightarrow>
    error + estimator \<times> bool \<times> bool" where
  \<comment> \<open>\<^verbatim>\<open>while (!step && max_iter > 0 && !converged)\<close>, by recursion on \<^verbatim>\<open>max_iter\<close>\<close>
  "lm_loop k aom lin 0 st = Inr st"
| "lm_loop k aom lin (Suc max_iter) st =
     (if fst (snd st) \<or> snd (snd st) then Inr st
      else case lm_trial k aom lin st of
             Inl e \<Rightarrow> Inl e
           | Inr st' \<Rightarrow> lm_loop k aom lin max_iter st')"

definition gn_step :: "kernels \<Rightarrow> AbsOrderMap \<Rightarrow> linearization \<Rightarrow> estimator \<Rightarrow>
    error + estimator \<times> bool \<times> bool" where
  \<comment> \<open>lines 962--990\<close>
  "gn_step k aom lin s =
     (let inc = solve lin (damped (Hdiag lin) (min_lambda s) (min_lambda s)) in
      bind_res (maxCoeff inc) (\<lambda>max_inc.
      bind_res (apply_increment k aom lin inc s) (\<lambda>s1.
      Inr (s1, False, max_inc < 1 / 10 ^ 4))))"

fun optimize_iters :: "kernels \<Rightarrow> AbsOrderMap \<Rightarrow> nat \<Rightarrow> int \<Rightarrow> estimator \<Rightarrow> error + estimator" where
  \<comment> \<open>the loop of lines 851--1048, by recursion on the number of iterations left\<close>
  "optimize_iters k aom 0 iter s = Inr s"
| "optimize_iters k aom (Suc n) iter s =
     (case (if vio_use_lm (config s)
            then lm_loop k aom (linearize k aom s) 10 (s, False, False)
            else gn_step k aom (linearize k aom s) s) of
        Inl e \<Rightarrow> Inl e
      | Inr st \<Rightarrow>
          (let s1 = fst st;
               s2 = (if iter = vio_filter_iteration (config s1)
                     then s1\<lparr>lmdb := filterOutliers k s1\<rparr> else s1)
           in if snd (snd st) then Inr s2 else optimize_iters k aom n (iter + 1) s2))"

definition optimize :: "kernels \<Rightarrow> estimator \<Rightarrow> error + estimator" where
  "optimize k s =
     (if opt_started s \<or> length (frame_states s) > 4 then
        bind_res (aom_poses (marg_order s) (map fst (frame_poses s)) AbsOrderMap_empty) (\<lambda>aom1.
        bind_res (aom_states (marg_order s) (map fst (frame_states s)) aom1) (\<lambda>aom.
        optimize_iters k aom (nat (vio_max_iterations (config s))) 0 (s\<lparr>opt_started := True\<rparr>)))
      else Inr s)"

section \<open>\<^verbatim>\<open>marginalize\<close> (lines 488--808)\<close>

subsection \<open>States to remove (lines 494--542)\<close>

definition states_to_remove :: "nat \<Rightarrow> nat \<Rightarrow> int" where
  \<comment> \<open>\<^verbatim>\<open>int states_to_remove = frame_states.size() - max_states + 1\<close>: computed in
      \<^verbatim>\<open>size_t\<close>, then narrowed to a 32-bit \<^verbatim>\<open>int\<close>\<close>
  "states_to_remove n m =
     sint (ucast ((word_of_nat n :: 64 word) - word_of_nat m + 1) :: 32 word)"

definition last_state_to_marg :: "estimator \<Rightarrow> error + int" where
  \<comment> \<open>lines 496--498: the iterator is advanced \<^verbatim>\<open>states_to_remove\<close> times and read\<close>
  "last_state_to_marg s =
     bind_res
       (vec_at (frame_states s)
          (nat (states_to_remove (length (frame_states s)) (max_states s))))
       (\<lambda>kv. Inr (fst kv))"

fun marg_states :: "AbsOrderMap \<Rightarrow> int list \<Rightarrow> int \<Rightarrow> int list \<Rightarrow>
    int list \<times> int list \<times> AbsOrderMap \<Rightarrow> error + int list \<times> int list \<times> AbsOrderMap" where
  \<comment> \<open>the loop of lines 519--542 over the keys of \<^verbatim>\<open>frame_states\<close>; the accumulator is
      \<^verbatim>\<open>states_to_marg_vel_bias\<close>, \<^verbatim>\<open>states_to_marg_all\<close> and \<^verbatim>\<open>aom\<close>\<close>
  "marg_states mo kfs last_t [] acc = Inr acc"
| "marg_states mo kfs last_t (k # ks) acc =
     (if k > last_t then Inr acc
      else
        let vel_bias = fst acc; marg_all = fst (snd acc); aom = snd (snd acc);
            vel_bias' = (if k \<noteq> last_t \<and> k \<in> set kfs then set_emplace k vel_bias else vel_bias);
            marg_all' = (if k \<noteq> last_t \<and> k \<notin> set kfs then set_emplace k marg_all else marg_all)
        in case check_state_order mo (aom_append k POSE_VEL_BIAS_SIZE aom) k of
             Inl e \<Rightarrow> Inl e
           | Inr u \<Rightarrow>
               marg_states mo kfs last_t ks
                 (vel_bias', marg_all',
                  aom_advance POSE_VEL_BIAS_SIZE (aom_append k POSE_VEL_BIAS_SIZE aom)))"

subsection \<open>Keyframes to remove (lines 544--607)\<close>

definition covis_evictable :: "(int \<rightharpoonup> int) \<Rightarrow> (int \<rightharpoonup> int) \<Rightarrow> int \<Rightarrow> error + bool" where
  \<comment> \<open>the condition of the \<^verbatim>\<open>if\<close> at lines 559--561: \<^verbatim>\<open>||\<close> evaluates its right operand
      only when the left one is false; the quotient of the two \<^verbatim>\<open>int\<close> counters is an
      \<^verbatim>\<open>int\<close>, converted to \<^verbatim>\<open>double\<close> for the comparison\<close>
  "covis_evictable npc npk k =
     (case npc k of
        None \<Rightarrow> Inr True
      | Some c \<Rightarrow>
          bind_res (at_map npk k) (\<lambda>n.
          bind_res (cpp_div c n) (\<lambda>q.
          Inr (real_of_int q < 5 / 100))))"

function covis_scan :: "(int \<rightharpoonup> int) \<Rightarrow> (int \<rightharpoonup> int) \<Rightarrow> int list \<Rightarrow> nat \<Rightarrow> error + int" where
  \<comment> \<open>the \<^verbatim>\<open>for\<close> loop of lines 555--565 from index \<open>i\<close> on; the result is \<^verbatim>\<open>id_to_marg\<close>,
      which stays \<open>-1\<close> when no keyframe is chosen\<close>
  "covis_scan npc npk ids i =
     (if i < size_minus_2 (length ids) then
        (if i < length ids then
           (case covis_evictable npc npk (ids ! i) of
              Inl e \<Rightarrow> Inl e
            | Inr b \<Rightarrow> if b then Inr (ids ! i) else covis_scan npc npk ids (i + 1))
         else Inl OutOfBounds)
      else Inr (- 1))"
  by pat_completeness auto
termination
  by (relation "measure (\<lambda>(npc, npk, ids, i). length ids - i)") auto

declare covis_scan.simps [simp del]

function fallback_denom :: "PoseStateWithLin tmap \<Rightarrow> int list \<Rightarrow> nat \<Rightarrow> nat \<Rightarrow> real \<Rightarrow>
    error + real" where
  \<comment> \<open>the inner loop of lines 580--585 from index \<open>j\<close> on\<close>
  "fallback_denom fp ids i j denom =
     (if j < size_minus_2 (length ids) then
        (if i < length ids \<and> j < length ids then
           (case map_at fp (ids ! i) of
              Inl e \<Rightarrow> Inl e
            | Inr p_i \<Rightarrow>
               (case map_at fp (ids ! j) of
                  Inl e \<Rightarrow> Inl e
                | Inr p_j \<Rightarrow>
                    fallback_denom fp ids i (j + 1)
                      (denom + 1 / (norm3 (minus3 (translation (getPose p_i))
                                                  (translation (getPose p_j))) + 1 / 10 ^ 5))))
         else Inl OutOfBounds)
      else Inr denom)"
  by pat_completeness auto
termination
  by (relation "measure (\<lambda>(fp, ids, i, j, denom). length ids - j)") auto

declare fallback_denom.simps [simp del]

function fallback_scan :: "PoseStateWithLin tmap \<Rightarrow> PoseVelBiasStateWithLin tmap \<Rightarrow> int \<Rightarrow>
    int list \<Rightarrow> nat \<Rightarrow> real \<Rightarrow> int \<Rightarrow> error + int" where
  \<comment> \<open>the loop of lines 578--598 from index \<open>i\<close> on, with \<^verbatim>\<open>min_score\<close> and
      \<^verbatim>\<open>min_score_id\<close>\<close>
  "fallback_scan fp fs last_kf ids i min_score min_score_id =
     (if i < size_minus_2 (length ids) then
        (if i < length ids then
           (case fallback_denom fp ids i 0 0 of
              Inl e \<Rightarrow> Inl e
            | Inr denom \<Rightarrow>
               (case map_at fp (ids ! i) of
                  Inl e \<Rightarrow> Inl e
                | Inr p_i \<Rightarrow>
                   (case map_at fs last_kf of
                      Inl e \<Rightarrow> Inl e
                    | Inr s_last \<Rightarrow>
                        if sqrt (norm3 (minus3 (translation (getPose p_i))
                                   (translation (T_w_i (getState s_last))))) * denom < min_score
                        then fallback_scan fp fs last_kf ids (i + 1)
                               (sqrt (norm3 (minus3 (translation (getPose p_i))
                                  (translation (T_w_i (getState s_last))))) * denom)
                               (ids ! i)
                        else fallback_scan fp fs last_kf ids (i + 1) min_score min_score_id)))
         else Inl OutOfBounds)
      else Inr min_score_id)"
  by pat_completeness auto
termination
  by (relation "measure (\<lambda>(fp, fs, last_kf, ids, i, m, mid). length ids - i)") auto

declare fallback_scan.simps [simp del]

definition choose_id_to_marg :: "(int \<rightharpoonup> int) \<Rightarrow> (int \<rightharpoonup> int) \<Rightarrow> PoseStateWithLin tmap \<Rightarrow>
    PoseVelBiasStateWithLin tmap \<Rightarrow> int list \<Rightarrow> error + int" where
  \<comment> \<open>lines 547--601: \<^verbatim>\<open>id_to_marg\<close> after the covisibility rule and, if that left it
      negative, the distance rule; \<^verbatim>\<open>*kf_ids.crbegin()\<close> of an empty set is undefined\<close>
  "choose_id_to_marg npc npk fp fs ids =
     bind_res (covis_scan npc npk ids 0) (\<lambda>id_to_marg.
       if id_to_marg < 0 then
         (if ids = [] then Inl OutOfBounds
          else fallback_scan fp fs (last ids) ids 0 DBL_MAX (- 1))
       else Inr id_to_marg)"

record eviction =
  ev_kf_ids :: "int list"
  kfs_to_marg :: "int list"
  poses_to_marg :: "int list"

definition evict_pass :: "(int \<rightharpoonup> int) \<Rightarrow> (int \<rightharpoonup> int) \<Rightarrow> PoseStateWithLin tmap \<Rightarrow>
    PoseVelBiasStateWithLin tmap \<Rightarrow> eviction \<Rightarrow> error + eviction" where
  \<comment> \<open>the body of the \<^verbatim>\<open>while\<close> loop, lines 547--606\<close>
  "evict_pass npc npk fp fs ev =
     bind_res (choose_id_to_marg npc npk fp fs (ev_kf_ids ev)) (\<lambda>id_to_marg.
       Inr \<lparr>ev_kf_ids = set_erase id_to_marg (ev_kf_ids ev),
            kfs_to_marg = set_emplace id_to_marg (kfs_to_marg ev),
            poses_to_marg = set_emplace id_to_marg (poses_to_marg ev)\<rparr>)"

partial_function (option) evict_loop :: "nat \<Rightarrow> int list \<Rightarrow> (int \<rightharpoonup> int) \<Rightarrow> (int \<rightharpoonup> int) \<Rightarrow>
    PoseStateWithLin tmap \<Rightarrow> PoseVelBiasStateWithLin tmap \<Rightarrow> eviction \<Rightarrow>
    (error + eviction) option" where
  \<comment> \<open>\<^verbatim>\<open>while (kf_ids.size() > max_kfs && !states_to_marg_vel_bias.empty())\<close>; the value
      \<open>None\<close> is a loop that does not return\<close>
  "evict_loop maxk vel_bias npc npk fp fs ev =
     (if length (ev_kf_ids ev) > maxk \<and> vel_bias \<noteq> [] then
        (case evict_pass npc npk fp fs ev of
           Inl e \<Rightarrow> Some (Inl e)
         | Inr ev' \<Rightarrow> evict_loop maxk vel_bias npc npk fp fs ev')
      else Some (Inr ev))"

declare evict_loop.simps [code]

subsection \<open>Observations to relinearise (lines 636--651)\<close>

definition obs_to_lin :: "int list \<Rightarrow> int \<Rightarrow> obs_map \<Rightarrow> obs_map" where
  \<comment> \<open>an entry of \<^verbatim>\<open>obs_to_lin\<close> is created by the first target that passes both tests\<close>
  "obs_to_lin kfs last_t om =
     filter (\<lambda>h. snd h \<noteq> [])
       (map (\<lambda>h. (fst h, filter (\<lambda>t. frame_id (fst t) \<le> last_t) (snd h)))
          (filter (\<lambda>h. frame_id (fst h) \<in> set kfs) om))"

subsection \<open>Indices to keep and to marginalise (lines 698--727)\<close>

definition emplace_range :: "nat \<Rightarrow> nat \<Rightarrow> nat list \<Rightarrow> nat list" where
  \<comment> \<open>\<^verbatim>\<open>for (i = lo; i < hi; i++) idx.emplace(start_idx + i)\<close> on a \<^verbatim>\<open>std::set<int>\<close>\<close>
  "emplace_range lo hi idx = fold set_emplace [lo ..< hi] idx"

fun idx_partition :: "int list \<Rightarrow> int list \<Rightarrow> int list \<Rightarrow> int \<Rightarrow> (nat \<times> nat) tmap \<Rightarrow>
    nat list \<times> nat list \<Rightarrow> error + nat list \<times> nat list" where
  \<comment> \<open>the accumulator is \<^verbatim>\<open>idx_to_keep\<close> and \<^verbatim>\<open>idx_to_marg\<close>\<close>
  "idx_partition poses marg_all vel_bias last_t [] acc = Inr acc"
| "idx_partition poses marg_all vel_bias last_t (kv # rest) acc =
     (let start_idx = fst (snd kv); idx_to_keep = fst acc; idx_to_marg = snd acc in
      if snd (snd kv) = POSE_SIZE then
        (if fst kv \<notin> set poses
         then idx_partition poses marg_all vel_bias last_t rest
                (emplace_range start_idx (start_idx + POSE_SIZE) idx_to_keep, idx_to_marg)
         else idx_partition poses marg_all vel_bias last_t rest
                (idx_to_keep, emplace_range start_idx (start_idx + POSE_SIZE) idx_to_marg))
      else if snd (snd kv) \<noteq> POSE_VEL_BIAS_SIZE then Inl AssertFailed
      else if fst kv \<in> set marg_all
        then idx_partition poses marg_all vel_bias last_t rest
               (idx_to_keep,
                emplace_range start_idx (start_idx + POSE_VEL_BIAS_SIZE) idx_to_marg)
      else if fst kv \<in> set vel_bias
        then idx_partition poses marg_all vel_bias last_t rest
               (emplace_range start_idx (start_idx + POSE_SIZE) idx_to_keep,
                emplace_range (start_idx + POSE_SIZE) (start_idx + POSE_VEL_BIAS_SIZE)
                  idx_to_marg)
      else if fst kv \<noteq> last_t then Inl AssertFailed
      else idx_partition poses marg_all vel_bias last_t rest
             (emplace_range start_idx (start_idx + POSE_VEL_BIAS_SIZE) idx_to_keep,
              idx_to_marg))"

subsection \<open>Removal of the marginalised variables and the new prior (lines 737--795)\<close>

definition pin_linearization :: "int \<Rightarrow> PoseVelBiasStateWithLin tmap \<Rightarrow>
    error + PoseVelBiasStateWithLin tmap" where
  \<comment> \<open>lines 742--746\<close>
  "pin_linearization last_t fs =
     bind_res (map_at fs last_t) (\<lambda>st.
       if linearized st then Inl AssertFailed
       else Inr (map (\<lambda>kv. if fst kv = last_t then (fst kv, (snd kv)\<lparr>linearized := True\<rparr>) else kv) fs))"

fun erase_states_all :: "int list \<Rightarrow> estimator \<Rightarrow> estimator" where
  \<comment> \<open>lines 748--752\<close>
  "erase_states_all [] s = s"
| "erase_states_all (i # rest) s =
     erase_states_all rest
       (s\<lparr>frame_states := map_erase i (frame_states s),
          imu_meas := map_erase i (imu_meas s),
          prev_opt_flow_res := map_erase i (prev_opt_flow_res s)\<rparr>)"

fun demote_states :: "int list \<Rightarrow> estimator \<Rightarrow> error + estimator" where
  \<comment> \<open>lines 754--761\<close>
  "demote_states [] s = Inr s"
| "demote_states (i # rest) s =
     (case map_at (frame_states s) i of
        Inl e \<Rightarrow> Inl e
      | Inr st \<Rightarrow>
          demote_states rest
            (s\<lparr>frame_poses := map_put i (PoseStateWithLin_of st) (frame_poses s),
               frame_states := map_erase i (frame_states s),
               imu_meas := map_erase i (imu_meas s)\<rparr>))"

fun erase_poses :: "int list \<Rightarrow> estimator \<Rightarrow> estimator" where
  \<comment> \<open>lines 763--766\<close>
  "erase_poses [] s = s"
| "erase_poses (i # rest) s =
     erase_poses rest
       (s\<lparr>frame_poses := map_erase i (frame_poses s),
          prev_opt_flow_res := map_erase i (prev_opt_flow_res s)\<rparr>)"

definition marg_order_new :: "int list \<Rightarrow> int \<Rightarrow> AbsOrderMap" where
  \<comment> \<open>lines 770--785\<close>
  "marg_order_new pose_keys last_t =
     aom_advance POSE_VEL_BIAS_SIZE
       (aom_append last_t POSE_VEL_BIAS_SIZE
          (fold (\<lambda>k aom. aom_advance POSE_SIZE (aom_append k POSE_SIZE aom)) pose_keys
             AbsOrderMap_empty))"

definition cols :: "real list list \<Rightarrow> nat" where
  "cols H = (case H of [] \<Rightarrow> 0 | r # rs \<Rightarrow> length r)"

definition mat_vec :: "real list list \<Rightarrow> real list \<Rightarrow> real list" where
  "mat_vec H d = map (\<lambda>r. sum_list (map2 (*) r d)) H"

definition marginalize_window :: "kernels \<Rightarrow> (int \<rightharpoonup> int) \<Rightarrow> estimator \<Rightarrow> error + estimator" where
  \<comment> \<open>the body of the \<^verbatim>\<open>if\<close> at line 491; the push to \<^verbatim>\<open>out_marg_queue\<close> is output only\<close>
  "marginalize_window k npc s =
     bind_res (last_state_to_marg s) (\<lambda>last_t.
     bind_res (aom_poses (marg_order s) (map fst (frame_poses s)) AbsOrderMap_empty) (\<lambda>aom1.
     bind_res (marg_states (marg_order s) (kf_ids s) last_t (map fst (frame_states s))
                 ([], [], aom1)) (\<lambda>acc.
       let vel_bias = fst acc; marg_all = fst (snd acc); aom = snd (snd acc) in
       case evict_loop (max_kfs s) vel_bias npc (num_points_kf s) (frame_poses s) (frame_states s)
              \<lparr>ev_kf_ids = kf_ids s, kfs_to_marg = [],
               poses_to_marg = filter (\<lambda>t. t \<notin> set (kf_ids s)) (map fst (frame_poses s))\<rparr> of
         None \<Rightarrow> Inl Diverges
       | Some (Inl e) \<Rightarrow> Inl e
       | Some (Inr ev) \<Rightarrow>
           let s1 = s\<lparr>kf_ids := ev_kf_ids ev\<rparr> in
           bind_res (idx_partition (poses_to_marg ev) marg_all vel_bias last_t
                       (abs_order_map aom) ([], [])) (\<lambda>idx.
           let Hb = marginalizeHelper k aom
                      (obs_to_lin (kfs_to_marg ev) last_t (obs (lmdb s1))) (fst idx) (snd idx) s1 in
           bind_res (pin_linearization last_t (frame_states s1)) (\<lambda>fs.
           bind_res (demote_states vel_bias
                       (erase_states_all marg_all (s1\<lparr>frame_states := fs\<rparr>))) (\<lambda>s2.
           let s3 = erase_poses (poses_to_marg ev) s2;
               s4 = s3\<lparr>lmdb := removeKeyframes (kfs_to_marg ev) (poses_to_marg ev) marg_all
                                 (lmdb s3)\<rparr>;
               mo = marg_order_new (map fst (frame_poses s4)) last_t;
               s5 = s4\<lparr>marg_H := fst Hb, marg_b := snd Hb, marg_order := mo\<rparr>
           in if cols (marg_H s5) \<noteq> total_size mo then Inl AssertFailed
              else Inr (s5\<lparr>marg_b := map2 (-) (marg_b s5)
                                        (mat_vec (marg_H s5) (computeDelta k mo s5))\<rparr>)))))))"

definition marginalize :: "kernels \<Rightarrow> (int \<rightharpoonup> int) \<Rightarrow> estimator \<Rightarrow> error + estimator" where
  "marginalize k npc s =
     (if \<not> opt_started s then Inr s
      else if length (frame_poses s) > max_kfs s \<or> length (frame_states s) \<ge> max_states s
      then marginalize_window k npc s
      else Inr s)"

section \<open>The whole of \<^verbatim>\<open>measure\<close>\<close>

definition measure_frame :: "kernels \<Rightarrow> OpticalFlowResult \<Rightarrow> IntegratedImuMeasurement option \<Rightarrow>
    estimator \<Rightarrow> error + estimator" where
  \<comment> \<open>\<^verbatim>\<open>measure(opt_flow_meas, meas)\<close>; the pushes to the output queues at lines 448--477
      do not change the estimator\<close>
  "measure_frame k f meas s =
     bind_res (propagate k f meas s) (\<lambda>s1.
     bind_res (associate_cams (t_ns f) 0 (observations f)
                 (association_empty,
                  lmdb (s1\<lparr>prev_opt_flow_res := map_put (t_ns f) f (prev_opt_flow_res s1)\<rparr>)))
       (\<lambda>adb.
     bind_res (keyframe_step k f (fst adb)
                 (decide_take_kf (fst adb)
                    (s1\<lparr>prev_opt_flow_res := map_put (t_ns f) f (prev_opt_flow_res s1),
                        lmdb := snd adb\<rparr>))) (\<lambda>s4.
     bind_res (optimize k s4) (\<lambda>s5.
     marginalize k (num_points_connected (fst adb)) s5))))"

fun measure_frames :: "kernels \<Rightarrow> (OpticalFlowResult \<times> IntegratedImuMeasurement option) list \<Rightarrow>
    estimator \<Rightarrow> error + estimator" where
  \<comment> \<open>the calls of \<^verbatim>\<open>measure\<close> made by the worker loop (lines 143--238), one for each
      frame, with the preintegrated measurement since the frame before (none at the first)\<close>
  "measure_frames k [] s = Inr s"
| "measure_frames k (fm # rest) s =
     (case measure_frame k (fst fm) (snd fm) s of
        Inl e \<Rightarrow> Inl e
      | Inr s' \<Rightarrow> measure_frames k rest s')"

section \<open>Notions used in the properties\<close>

definition obs_entries :: "obs_map \<Rightarrow> (TimeCamId \<times> TimeCamId \<times> KeypointObservation) set" where
  \<comment> \<open>the observations of a two-level observation map, each with its host and target\<close>
  "obs_entries om =
     {(h, t, ob). \<exists>ts os. (h, ts) \<in> set om \<and> (t, os) \<in> set ts \<and> ob \<in> set os}"

definition candidate_baseline2 :: "kernels \<Rightarrow> estimator \<Rightarrow> OpticalFlowResult \<Rightarrow> TimeCamId \<Rightarrow>
    error + real" where
  \<comment> \<open>the squared length of the translation between the camera of the new keyframe and
      the camera of a candidate observation, \<^verbatim>\<open>T_0_1.translation().squaredNorm()\<close>\<close>
  "candidate_baseline2 k s f tcido =
     bind_res (getPoseStateWithLin s (t_ns f)) (\<lambda>pl.
     bind_res (getPoseStateWithLin s (frame_id tcido)) (\<lambda>po.
     Inr (squaredNorm (translation (rel_pose k (getPose pl) (getPose po) (cam_id tcido))))))"

definition lambda_in_bounds :: "estimator \<Rightarrow> bool" where
  \<comment> \<open>the damping \<open>\<lambda>\<close> lies between its bounds, and its growth factor is at least 2\<close>
  "lambda_in_bounds s \<longleftrightarrow>
     0 \<le> min_lambda s \<and> min_lambda s \<le> lambda s \<and> lambda s \<le> max_lambda s \<and>
     2 \<le> lambda_vee s"

definition same_bookkeeping :: "estimator \<Rightarrow> estimator \<Rightarrow> bool" where
  \<comment> \<open>two estimators with the same frames in the window and the same keyframe bookkeeping\<close>
  "same_bookkeeping s s' \<longleftrightarrow>
     map fst (frame_states s') = map fst (frame_states s) \<and>
     map fst (frame_poses s') = map fst (frame_poses s) \<and>
     kf_ids s' = kf_ids s \<and> num_points_kf s' = num_points_kf s \<and>
     take_kf s' = take_kf s \<and> frames_after_kf s' = frames_after_kf s \<and>
     last_state_t_ns s' = last_state_t_ns s \<and>
     max_states s' = max_states s \<and> max_kfs s' = max_kfs s \<and> config s' = config s \<and>
     marg_order s' = marg_order s \<and> prev_opt_flow_res s' = prev_opt_flow_res s"





definition keyframes_outside :: "estimator \<Rightarrow> int list" where
  \<comment> \<open>the keyframes that are no longer among the states of the window\<close>
  "keyframes_outside s = filter (\<lambda>t. t \<notin> set (map fst (frame_states s))) (kf_ids s)"

definition window_inv :: "estimator \<Rightarrow> bool" where
  \<comment> \<open>what every call of \<^verbatim>\<open>measure\<close> keeps: the two containers are in key order, at most
      \<^verbatim>\<open>max_kfs\<close> keyframes are outside \<^verbatim>\<open>frame_states\<close>, and \<^verbatim>\<open>frame_states\<close> is below
      \<^verbatim>\<open>max_states\<close> once the optimisation has started (at most 4 states before)\<close>
  "window_inv s \<longleftrightarrow>
     sorted_wrt (<) (map fst (frame_states s)) \<and> sorted_wrt (<) (kf_ids s) \<and>
     length (keyframes_outside s) \<le> max_kfs s \<and>
     (if opt_started s then length (frame_states s) < max_states s
      else length (frame_states s) \<le> 4) \<and>
     Suc (max_states s) < 2 ^ 31"





section \<open>Example inputs\<close>

text \<open>
  A configuration with the window bounds and prior weights that the specification
  names, and collaborators that compute nothing; they serve to run the definitions on
  concrete windows.
\<close>

definition example_config :: VioConfig where
  "example_config =
     \<lparr>vio_lm_lambda_min = 1 / 10 ^ 32, vio_lm_lambda_max = 100,
      vio_init_pose_weight = 10 ^ 8, vio_init_ba_weight = 10, vio_init_bg_weight = 100,
      vio_max_states = 3, vio_max_kfs = 7,
      vio_new_kf_keypoints_thresh = 7 / 10, vio_min_frames_after_kf = 5,
      vio_min_triangulation_dist = 5 / 100,
      vio_max_iterations = 7, vio_use_lm = True, vio_filter_iteration = 4\<rparr>"

definition example_linearization :: linearization where
  "example_linearization =
     \<lparr>rld_error = 1, imu_error = 0, marg_prior_error = 0, ba_error = 0, bg_error = 0,
      Hdiag = [1], solve = (\<lambda>d. [0]), point_update = (\<lambda>inc i lm. (dir lm, id_inv_depth lm))\<rparr>"

definition example_kernels :: kernels where
  "example_kernels =
     \<lparr>predictState = (\<lambda>m st. st),
      unproject = (\<lambda>cam p. (True, [])),
      rel_pose = (\<lambda>p0 p1 cam. \<lparr>translation = (real cam, 0, 0), rotation = []\<rparr>),
      triangulate = (\<lambda>b0 b1 T. (Fin 0, Fin 0, Fin 1, Fin 1)),
      stereographic_project = (\<lambda>p. (0, 0)),
      linearize = (\<lambda>aom s. example_linearization),
      pose_applyInc = (\<lambda>inc p. p),
      state_applyInc = (\<lambda>inc st. st),
      computeError = (\<lambda>s. 1),
      computeImuError = (\<lambda>aom s. (0, 0, 0)),
      computeMargPriorError = (\<lambda>s. 0),
      filterOutliers = (\<lambda>s. lmdb s),
      marginalizeHelper = (\<lambda>aom om keep marg s.
         (replicate (length keep) (replicate (length keep) 0), replicate (length keep) 0)),
      computeDelta = (\<lambda>aom s. replicate (total_size aom) 0)\<rparr>"

definition example_pose :: Pose where
  "example_pose = \<lparr>translation = (0, 0, 0), rotation = [1, 0, 0, 0]\<rparr>"

definition example_stereo_frame :: OpticalFlowResult where
  "example_stereo_frame = \<lparr>t_ns = 1, observations = [[(7, (0, 0))], [(7, (1, 0))]]\<rparr>"

definition example_initial :: estimator where
  "example_initial =
     initialize 1 example_pose (0, 0, 0) (0, 0, 0) (0, 0, 0) (KeypointVioEstimator example_config)"

definition example_first_window :: estimator where
  "example_first_window = example_initial\<lparr>prev_opt_flow_res := [(1, example_stereo_frame)]\<rparr>"

definition example_tracking_window :: estimator where
  "example_tracking_window = example_first_window\<lparr>take_kf := False, frames_after_kf := 6\<rparr>"

definition example_association :: association where
  "example_association =
     \<lparr>connected0 = 0, num_points_connected = Map.empty, unconnected_obs0 = [7]\<rparr>"

text \<open>
  A run of the estimator with room for two keyframes: seventeen frames one time unit
  apart, of which frames 8 and 15 show one keypoint that no landmark explains.
\<close>

definition example_small_config :: VioConfig where
  "example_small_config = example_config\<lparr>vio_max_kfs := 2\<rparr>"

definition example_start :: estimator where
  "example_start =
     initialize 1 example_pose (0, 0, 0) (0, 0, 0) (0, 0, 0)
       (KeypointVioEstimator example_small_config)"

definition example_input :: "int \<Rightarrow> OpticalFlowResult \<times> IntegratedImuMeasurement option" where
  "example_input t =
     (\<lparr>t_ns = t, observations = (if t = 8 \<or> t = 15 then [[(t, (0, 0))], []] else [[], []])\<rparr>,
      if t = 1 then None else Some \<lparr>start_t_ns = t - 1, dt_ns = 1, preintegrated = []\<rparr>)"

definition example_trace :: "int \<Rightarrow> (OpticalFlowResult \<times> IntegratedImuMeasurement option) list" where
  "example_trace n = map example_input [1..n]"

text \<open>
  A full window: two keyframe poses, three states of which the oldest is a keyframe, and
  landmarks hosted by the two oldest keyframes.
\<close>

definition example_state :: "int \<Rightarrow> PoseVelBiasStateWithLin" where
  "example_state t =
     \<lparr>linearized = False,
      getState = \<lparr>st_t_ns = t, T_w_i = example_pose, vel_w_i = (0, 0, 0),
                  bias_gyro = (0, 0, 0), bias_accel = (0, 0, 0)\<rparr>\<rparr>"

definition example_full_window :: estimator where
  "example_full_window =
     (KeypointVioEstimator example_small_config)
       \<lparr>initialized := True, take_kf := False, opt_started := True, last_state_t_ns := 5,
        frame_poses := [(1, PoseStateWithLin_of (example_state 1)),
                        (2, PoseStateWithLin_of (example_state 2))],
        frame_states := [(3, example_state 3), (4, example_state 4), (5, example_state 5)],
        kf_ids := [1, 2, 3],
        num_points_kf := [1 \<mapsto> 1, 2 \<mapsto> 1, 3 \<mapsto> 0],
        marg_order := \<lparr>abs_order_map = [(1, (0, 6)), (2, (6, 6)), (3, (12, 15))],
                        total_size = 27, items = 3\<rparr>,
        lmdb := \<lparr>kpts = [7 \<mapsto> \<lparr>kf_id = \<lparr>frame_id = 1, cam_id = 0\<rparr>, dir = (0, 0),
                                  id_inv_depth = 1\<rparr>,
                           9 \<mapsto> \<lparr>kf_id = \<lparr>frame_id = 2, cam_id = 0\<rparr>, dir = (0, 0),
                                  id_inv_depth = 1\<rparr>],
                  obs = [(\<lparr>frame_id = 1, cam_id = 0\<rparr>,
                            [(\<lparr>frame_id = 1, cam_id = 1\<rparr>, [\<lparr>kpt_id = 7, pos = (0, 0)\<rparr>]),
                             (\<lparr>frame_id = 5, cam_id = 0\<rparr>, [\<lparr>kpt_id = 7, pos = (1, 0)\<rparr>])]),
                         (\<lparr>frame_id = 2, cam_id = 0\<rparr>,
                            [(\<lparr>frame_id = 3, cam_id = 0\<rparr>, [\<lparr>kpt_id = 9, pos = (0, 1)\<rparr>])])]\<rparr>\<rparr>"

section \<open>Properties\<close>

subsection \<open>Machine arithmetic\<close>

lemma size_minus_2_small: "2 \<le> n \<Longrightarrow> n < 2 ^ 64 \<Longrightarrow> size_minus_2 n = n - 2"
  unfolding size_minus_2_def
  by (simp add: unat_sub_if' unat_of_nat word_of_nat_less_iff take_bit_nat_eq_self
        word_le_nat_alt)

lemma size_minus_2_one: "size_minus_2 (Suc 0) = 18446744073709551615"
  unfolding size_minus_2_def by (simp add: unsigned_minus_1_eq_mask mask_eq_exp_minus_1)

lemma states_to_remove_small:
  assumes "Suc n < 2 ^ 31" "m < 2 ^ 31"
  shows "states_to_remove n m = int n - int m + 1"
proof -
  let ?x = "int n - int m + 1"
  have w: "(word_of_nat n :: 64 word) - word_of_nat m + 1 = word_of_int ?x" by simp
  have "uint ((word_of_nat n :: 64 word) - word_of_nat m + 1) = take_bit 64 ?x"
    by (simp only: w uint_word_of_int_eq) simp
  then have "states_to_remove n m = signed_take_bit 31 (take_bit 64 ?x)"
    unfolding states_to_remove_def by (simp add: signed_ucast_eq)
  also have "\<dots> = signed_take_bit 31 ?x"
    by (simp add: signed_take_bit_take_bit)
  also have "\<dots> = ?x"
    using assms by (intro signed_take_bit_int_eq_self) auto
  finally show ?thesis .
qed

subsection \<open>Marginalisation with the window within bounds\<close>

text \<open>
  Claim C6. If \<^verbatim>\<open>opt_started\<close> is false, or if \<^verbatim>\<open>frame_poses.size() <= max_kfs\<close> and
  \<^verbatim>\<open>frame_states.size() < max_states\<close>, a call of \<^verbatim>\<open>marginalize\<close> returns the estimator
  it was given: the prior \<^verbatim>\<open>marg_H\<close>, \<^verbatim>\<open>marg_b\<close>, \<^verbatim>\<open>marg_order\<close>, the window
  \<^verbatim>\<open>frame_states\<close>, \<^verbatim>\<open>frame_poses\<close>, \<^verbatim>\<open>kf_ids\<close> and the landmark database are unchanged.
\<close>

theorem marginalize_within_bounds_noop:
  assumes "\<not> opt_started s \<or>
           (length (frame_poses s) \<le> max_kfs s \<and> length (frame_states s) < max_states s)"
  shows "marginalize k npc s = Inr s"
  using assms by (auto simp: marginalize_def)

theorem marginalize_within_bounds_noop_witness:
  "marginalize example_kernels Map.empty ((KeypointVioEstimator example_config)\<lparr>opt_started := True\<rparr>)
     = Inr ((KeypointVioEstimator example_config)\<lparr>opt_started := True\<rparr>)"
  using marginalize_within_bounds_noop
    [of "(KeypointVioEstimator example_config)\<lparr>opt_started := True\<rparr>" example_kernels Map.empty]
  by (simp add: KeypointVioEstimator_def example_config_def size_t_of_int_def)

subsection \<open>The covisibility rule divides integers\<close>

text \<open>
  Claim C1. The covisibility rule is meant to pick the oldest keyframe, the two newest
  excluded, that has no entry in \<^verbatim>\<open>num_points_connected\<close> or whose fraction
  \<^verbatim>\<open>num_points_connected[k] / num_points_kf[k]\<close> is below 0.05. With the keyframes
  1, 2, 3, of which keyframe 1 hosted 20 landmarks and 19 of them are seen in the current
  frame, the fraction is 0.95; the code nevertheless chooses keyframe 1, because the
  quotient of the two \<^verbatim>\<open>int\<close> counters is the integer 0.
\<close>

theorem covisibility_rule_integer_quotient:
  "covis_scan (Map.empty(1 \<mapsto> 19)) (Map.empty(1 \<mapsto> 20)) [1, 2, 3] 0 = Inr 1
   \<and> \<not> ((19 :: real) / 20 < 5 / 100)"
  by (simp add: covis_scan.simps size_minus_2_small covis_evictable_def bind_res_def
        at_map_def cpp_div_def)

subsection \<open>The guard of the two newest keyframes wraps around\<close>

text \<open>
  Claim C8. No pass of the eviction loop is meant to select one of the two newest
  keyframes, so that with at most two keyframes nothing is evicted. With a single keyframe
  100 (and \<^verbatim>\<open>max_kfs = 0\<close>, so that the loop is entered) the bound \<^verbatim>\<open>ids.size() - 2\<close> wraps
  around to \<open>2^64 - 1\<close>; the keyframe has no entry in \<^verbatim>\<open>num_points_connected\<close>, is
  selected and is erased from \<^verbatim>\<open>kf_ids\<close>.
\<close>

theorem single_keyframe_is_evicted:
  "evict_pass Map.empty Map.empty [] []
     \<lparr>ev_kf_ids = [100], kfs_to_marg = [], poses_to_marg = []\<rparr>
   = Inr \<lparr>ev_kf_ids = [], kfs_to_marg = [100], poses_to_marg = [100]\<rparr>"
  by (simp add: evict_pass_def choose_id_to_marg_def covis_scan.simps size_minus_2_one
        covis_evictable_def bind_res_def set_erase_def)

subsection \<open>Containers\<close>

lemma set_set_emplace [simp]: "set (set_emplace k xs) = insert k (set xs)"
  by (induction xs) auto

lemma set_set_erase [simp]: "set (set_erase k xs) = set xs - {k}"
  by (auto simp: set_erase_def)

subsection \<open>The eviction loop\<close>

text \<open>
  A property that every pass keeps holds when the loop returns, together with the
  negation of the loop condition.
\<close>

lemma evict_loop_rule:
  assumes run: "evict_loop maxk vb npc npk fp fs ev0 = Some (Inr ev)"
      and pres: "\<And>npc npk fp fs ev ev'. evict_pass npc npk fp fs ev = Inr ev' \<Longrightarrow> I ev \<Longrightarrow> I ev'"
      and init: "I ev0"
  shows "I ev \<and> \<not> (maxk < length (ev_kf_ids ev) \<and> vb \<noteq> [])"
proof -
  let ?P = "\<lambda>(maxk::nat) (vb::int list) (npc::int \<rightharpoonup> int) (npk::int \<rightharpoonup> int)
              (fp::PoseStateWithLin tmap) (fs::PoseVelBiasStateWithLin tmap) ev0
              (r::error + eviction).
              \<forall>ev. r = Inr ev \<longrightarrow> I ev0 \<longrightarrow>
                I ev \<and> \<not> (maxk < length (ev_kf_ids ev) \<and> vb \<noteq> [])"
  have "?P maxk vb npc npk fp fs ev0 (Inr ev)"
  proof (rule evict_loop.raw_induct[where P = ?P, OF _ run], goal_cases)
    case (1 f maxk vb npc npk fp fs ev0 r)
    show ?case
    proof (cases "maxk < length (ev_kf_ids ev0) \<and> vb \<noteq> []")
      case True
      show ?thesis
      proof (cases "evict_pass npc npk fp fs ev0")
        case (Inl e)
        with True 1(2) show ?thesis by auto
      next
        case (Inr ev1)
        with True 1(2) have "f maxk vb npc npk fp fs ev1 = Some r" by simp
        from 1(1)[OF this] pres[OF Inr] show ?thesis by blast
      qed
    next
      case False
      with 1(2) show ?thesis by auto
    qed
  qed
  with init show ?thesis by blast
qed

lemma evict_pass_disjoint:
  assumes "evict_pass npc npk fp fs ev = Inr ev'"
      and "set (ev_kf_ids ev) \<inter> set (kfs_to_marg ev) = {}"
  shows "set (ev_kf_ids ev') \<inter> set (kfs_to_marg ev') = {}"
  using assms by (auto simp: evict_pass_def bind_res_def split: sum.splits)

subsection \<open>Scope of the relinearisation\<close>

lemma in_obs_entries:
  "(h, t, ob) \<in> obs_entries om \<longleftrightarrow>
     (\<exists>ts os. (h, ts) \<in> set om \<and> (t, os) \<in> set ts \<and> ob \<in> set os)"
  by (simp add: obs_entries_def)

lemma obs_entries_obs_to_lin:
  "obs_entries (obs_to_lin kfs last_t om) =
     {e \<in> obs_entries om. frame_id (fst e) \<in> set kfs \<and> frame_id (fst (snd e)) \<le> last_t}"
proof (rule set_eqI)
  fix e :: "TimeCamId \<times> TimeCamId \<times> KeypointObservation"
  obtain h t ob where e: "e = (h, t, ob)" by (cases e) auto
  show "e \<in> obs_entries (obs_to_lin kfs last_t om) \<longleftrightarrow>
        e \<in> {e \<in> obs_entries om. frame_id (fst e) \<in> set kfs \<and> frame_id (fst (snd e)) \<le> last_t}"
  proof
    assume "e \<in> obs_entries (obs_to_lin kfs last_t om)"
    then obtain ts os where a: "(h, ts) \<in> set (obs_to_lin kfs last_t om)"
        "(t, os) \<in> set ts" "ob \<in> set os"
      unfolding e in_obs_entries by blast
    from a(1) obtain ts0 where b: "(h, ts0) \<in> set om" "frame_id h \<in> set kfs"
        "ts = filter (\<lambda>t. frame_id (fst t) \<le> last_t) ts0"
      unfolding obs_to_lin_def by auto
    with a show "e \<in> {e \<in> obs_entries om.
        frame_id (fst e) \<in> set kfs \<and> frame_id (fst (snd e)) \<le> last_t}"
      unfolding e by (auto simp: in_obs_entries)
  next
    assume "e \<in> {e \<in> obs_entries om.
        frame_id (fst e) \<in> set kfs \<and> frame_id (fst (snd e)) \<le> last_t}"
    then obtain ts os where a: "(h, ts) \<in> set om" "(t, os) \<in> set ts" "ob \<in> set os"
        "frame_id h \<in> set kfs" "frame_id t \<le> last_t"
      unfolding e by (auto simp: in_obs_entries)
    let ?ts = "filter (\<lambda>t. frame_id (fst t) \<le> last_t) ts"
    have "(t, os) \<in> set ?ts" using a by simp
    moreover from this have "?ts \<noteq> []" by (metis empty_iff empty_set)
    then have "(h, ?ts) \<in> set (obs_to_lin kfs last_t om)"
      unfolding obs_to_lin_def using a(1,4) by (auto simp: image_iff intro!: bexI[of _ "(h, ts)"])
    ultimately show "e \<in> obs_entries (obs_to_lin kfs last_t om)"
      unfolding e in_obs_entries using a(3) by blast
  qed
qed

subsection \<open>The Levenberg--Marquardt damping trial\<close>

lemma apply_increment_lambda:
  assumes "apply_increment k aom lin inc s = Inr s1"
  shows "lambda s1 = lambda s \<and> min_lambda s1 = min_lambda s \<and> max_lambda s1 = max_lambda s
         \<and> lambda_vee s1 = lambda_vee s"
  using assms by (auto simp: apply_increment_def bind_res_def split: sum.splits)

lemma lm_trial_cases:
  assumes "lm_trial k aom lin (s, step, conv) = Inr (s', step', conv')"
  obtains s1 where
    "apply_increment k aom lin (solve lin (damped (Hdiag lin) (lambda s) (min_lambda s))) s = Inr s1"
    "(error_total lin - after_error_total k aom s1 < 0 \<and> step' = step \<and>
        s' = s\<lparr>lambda := min (max_lambda s) (lambda_vee s * lambda s),
                lambda_vee := lambda_vee s * 2\<rparr>)
     \<or> (\<not> error_total lin - after_error_total k aom s1 < 0 \<and> step' \<and>
        s' = s1\<lparr>lambda := max (min_lambda s) (lambda s / 3), lambda_vee := 2\<rparr>)"
proof -
  let ?inc = "solve lin (damped (Hdiag lin) (lambda s) (min_lambda s))"
  from assms obtain mi where mi: "maxCoeff ?inc = Inr mi"
    by (cases "maxCoeff ?inc") (simp_all add: lm_trial_def bind_res_def Let_def)
  from assms mi obtain s1 where s1: "apply_increment k aom lin ?inc s = Inr s1"
    by (cases "apply_increment k aom lin ?inc s") (simp_all add: lm_trial_def bind_res_def Let_def)
  show ?thesis
  proof (rule that[OF s1])
    show "(error_total lin - after_error_total k aom s1 < 0 \<and> step' = step \<and>
        s' = s\<lparr>lambda := min (max_lambda s) (lambda_vee s * lambda s),
                lambda_vee := lambda_vee s * 2\<rparr>)
     \<or> (\<not> error_total lin - after_error_total k aom s1 < 0 \<and> step' \<and>
        s' = s1\<lparr>lambda := max (min_lambda s) (lambda s / 3), lambda_vee := 2\<rparr>)"
      using assms mi s1
      by (cases "error_total lin - after_error_total k aom s1 < 0")
         (simp_all add: lm_trial_def bind_res_def Let_def)
  qed
qed

lemma lm_trial_bounds:
  assumes "lm_trial k aom lin (s, step, conv) = Inr (s', step', conv')" "lambda_in_bounds s"
  shows "lambda_in_bounds s'"
proof -
  from assms(1) obtain s1 where
    inc: "apply_increment k aom lin (solve lin (damped (Hdiag lin) (lambda s) (min_lambda s))) s = Inr s1"
    and c: "(s' = s\<lparr>lambda := min (max_lambda s) (lambda_vee s * lambda s),
                lambda_vee := lambda_vee s * 2\<rparr>)
     \<or> (s' = s1\<lparr>lambda := max (min_lambda s) (lambda s / 3), lambda_vee := 2\<rparr>)"
    by (rule lm_trial_cases) blast
  note s1 = apply_increment_lambda[OF inc]
  have "lambda s * 1 \<le> lambda s * lambda_vee s"
    using assms(2) unfolding lambda_in_bounds_def by (intro mult_left_mono) auto
  then have m: "lambda s \<le> lambda_vee s * lambda s" by (simp add: mult.commute)
  from c show ?thesis
  proof
    assume "s' = s\<lparr>lambda := min (max_lambda s) (lambda_vee s * lambda s), lambda_vee := lambda_vee s * 2\<rparr>"
    with assms(2) m show ?thesis by (simp add: lambda_in_bounds_def)
  next
    assume "s' = s1\<lparr>lambda := max (min_lambda s) (lambda s / 3), lambda_vee := 2\<rparr>"
    with assms(2) s1 show ?thesis by (simp add: lambda_in_bounds_def)
  qed
qed

lemma lm_loop_bounds:
  assumes "lm_loop k aom lin n st = Inr st'" "lambda_in_bounds (fst st)"
  shows "lambda_in_bounds (fst st')"
  using assms
proof (induction n arbitrary: st)
  case 0
  then show ?case by simp
next
  case (Suc n)
  show ?case
  proof (cases "fst (snd st) \<or> snd (snd st)")
    case True
    with Suc.prems show ?thesis by simp
  next
    case False
    show ?thesis
    proof (cases "lm_trial k aom lin st")
      case (Inl e)
      with False Suc.prems show ?thesis by simp
    next
      case (Inr st1)
      with False Suc.prems have run: "lm_loop k aom lin n st1 = Inr st'" by simp
      obtain s b c where st: "st = (s, b, c)" by (cases st) auto
      obtain s1 b1 c1 where st1: "st1 = (s1, b1, c1)" by (cases st1) auto
      have "lambda_in_bounds s1"
        using lm_trial_bounds[of k aom lin s b c s1 b1 c1] Inr Suc.prems(2) by (simp add: st st1)
      then show ?thesis using Suc.IH[OF run] by (simp add: st1)
    qed
  qed
qed

lemma gn_step_bounds:
  assumes "gn_step k aom lin s = Inr st'" "lambda_in_bounds s"
  shows "lambda_in_bounds (fst st')"
proof -
  let ?inc = "solve lin (damped (Hdiag lin) (min_lambda s) (min_lambda s))"
  from assms(1) obtain mi where mi: "maxCoeff ?inc = Inr mi"
    by (cases "maxCoeff ?inc") (simp_all add: gn_step_def bind_res_def Let_def)
  from assms(1) mi obtain s1 where s1: "apply_increment k aom lin ?inc s = Inr s1"
    by (cases "apply_increment k aom lin ?inc s") (simp_all add: gn_step_def bind_res_def Let_def)
  from assms(1) mi s1 have "fst st' = s1" by (auto simp: gn_step_def bind_res_def Let_def)
  with apply_increment_lambda[OF s1] assms(2) show ?thesis by (simp add: lambda_in_bounds_def)
qed

lemma optimize_iters_bounds:
  assumes "optimize_iters k aom n iter s = Inr s'" "lambda_in_bounds s"
  shows "lambda_in_bounds s'"
  using assms
proof (induction n arbitrary: iter s)
  case 0
  then show ?case by simp
next
  case (Suc n)
  let ?r = "if vio_use_lm (config s)
            then lm_loop k aom (linearize k aom s) 10 (s, False, False)
            else gn_step k aom (linearize k aom s) s"
  from Suc.prems(1) obtain st where st: "?r = Inr st"
    by (cases ?r) simp_all
  have b: "lambda_in_bounds (fst st)"
  proof (cases "vio_use_lm (config s)")
    case True
    with st lm_loop_bounds[of k aom "linearize k aom s" 10 "(s, False, False)" st] Suc.prems(2)
    show ?thesis by simp
  next
    case False
    with st gn_step_bounds[of k aom "linearize k aom s" s st] Suc.prems(2)
    show ?thesis by simp
  qed
  let ?s2 = "if iter = vio_filter_iteration (config (fst st))
             then (fst st)\<lparr>lmdb := filterOutliers k (fst st)\<rparr> else fst st"
  have b2: "lambda_in_bounds ?s2" using b by (simp add: lambda_in_bounds_def)
  show ?case
  proof (cases "snd (snd st)")
    case True
    with Suc.prems(1) st have "s' = ?s2" by (simp add: Let_def)
    with b2 show ?thesis by simp
  next
    case False
    with Suc.prems(1) st have "optimize_iters k aom n (iter + 1) ?s2 = Inr s'"
      by (simp add: Let_def)
    from Suc.IH[OF this b2] show ?thesis .
  qed
qed

lemma optimize_bounds:
  assumes "optimize k s = Inr s'" "lambda_in_bounds s"
  shows "lambda_in_bounds s'"
proof (cases "opt_started s \<or> length (frame_states s) > 4")
  case False
  with assms show ?thesis by (simp add: optimize_def)
next
  case True
  let ?a1 = "aom_poses (marg_order s) (map fst (frame_poses s)) AbsOrderMap_empty"
  from assms(1) True obtain aom1 where a1: "?a1 = Inr aom1"
    by (cases ?a1) (simp_all add: optimize_def bind_res_def)
  let ?a2 = "aom_states (marg_order s) (map fst (frame_states s)) aom1"
  from assms(1) True a1 obtain aom where a2: "?a2 = Inr aom"
    by (cases ?a2) (simp_all add: optimize_def bind_res_def)
  from assms(1) True a1 a2 have
    "optimize_iters k aom (nat (vio_max_iterations (config s))) 0 (s\<lparr>opt_started := True\<rparr>) = Inr s'"
    by (simp add: optimize_def bind_res_def)
  moreover have "lambda_in_bounds (s\<lparr>opt_started := True\<rparr>)"
    using assms(2) by (simp add: lambda_in_bounds_def)
  ultimately show ?thesis by (rule optimize_iters_bounds)
qed

lemma constructor_bounds:
  assumes "0 \<le> vio_lm_lambda_min cfg" "vio_lm_lambda_min cfg \<le> vio_lm_lambda_max cfg"
  shows "lambda_in_bounds (KeypointVioEstimator cfg)"
  using assms by (simp add: lambda_in_bounds_def KeypointVioEstimator_def)

text \<open>
  Claim C2, as the code has it. A damping trial with \<^verbatim>\<open>vio_use_lm\<close> applies the increment
  and recomputes the total error (vision, IMU, marginalisation prior and the two bias
  random walks). The step is accepted exactly when the recomputed error is not larger
  than the error of the linearisation: then \<open>\<lambda>\<close> becomes \<open>max min_\<lambda> (\<lambda> / 3)\<close> and
  \<^verbatim>\<open>lambda_vee\<close> is reset to 2. Otherwise the estimator is the one before the increment
  (the live variables are restored), \<open>\<lambda>\<close> becomes \<open>min max_\<lambda> (lambda_vee * \<lambda>)\<close>, which is
  not smaller than before and is larger when \<open>0 < \<lambda> < max_\<lambda>\<close>, and \<^verbatim>\<open>lambda_vee\<close>
  doubles. In both cases \<open>\<lambda>\<close> stays within \<open>[min_\<lambda>, max_\<lambda>]\<close>, provided
  \<open>0 \<le> min_\<lambda> \<le> max_\<lambda>\<close>. The doubles are read as real numbers.
\<close>

theorem lm_trial_accept_reject:
  assumes trial: "lm_trial k aom lin (s, False, conv) = Inr (s', step', conv')"
      and bounds: "lambda_in_bounds s"
  shows "\<exists>s1. apply_increment k aom lin
                (solve lin (damped (Hdiag lin) (lambda s) (min_lambda s))) s = Inr s1
           \<and> (step' \<longleftrightarrow> after_error_total k aom s1 \<le> error_total lin)
           \<and> (step' \<longrightarrow>
                s' = s1\<lparr>lambda := max (min_lambda s) (lambda s / 3), lambda_vee := 2\<rparr>)
           \<and> (\<not> step' \<longrightarrow>
                s' = s\<lparr>lambda := min (max_lambda s) (lambda_vee s * lambda s),
                       lambda_vee := lambda_vee s * 2\<rparr>
                \<and> lambda s \<le> lambda s'
                \<and> (0 < lambda s \<and> lambda s < max_lambda s \<longrightarrow> lambda s < lambda s'))
           \<and> lambda_in_bounds s'"
proof -
  from trial obtain s1 where
    inc: "apply_increment k aom lin (solve lin (damped (Hdiag lin) (lambda s) (min_lambda s))) s = Inr s1"
    and c: "(error_total lin - after_error_total k aom s1 < 0 \<and> step' = False \<and>
        s' = s\<lparr>lambda := min (max_lambda s) (lambda_vee s * lambda s),
                lambda_vee := lambda_vee s * 2\<rparr>)
     \<or> (\<not> error_total lin - after_error_total k aom s1 < 0 \<and> step' \<and>
        s' = s1\<lparr>lambda := max (min_lambda s) (lambda s / 3), lambda_vee := 2\<rparr>)"
    by (rule lm_trial_cases) blast
  have b': "lambda_in_bounds s'" using lm_trial_bounds[OF trial bounds] .
  have "lambda s * 1 \<le> lambda s * lambda_vee s"
    using bounds unfolding lambda_in_bounds_def by (intro mult_left_mono) auto
  then have m: "lambda s \<le> lambda_vee s * lambda s" by (simp add: mult.commute)
  have m': "lambda s < lambda_vee s * lambda s" if "0 < lambda s"
  proof -
    have "lambda s * 1 < lambda s * lambda_vee s"
      using bounds that unfolding lambda_in_bounds_def by (intro mult_strict_left_mono) auto
    then show ?thesis by (simp add: mult.commute)
  qed
  from c show ?thesis
  proof
    assume r: "error_total lin - after_error_total k aom s1 < 0 \<and> step' = False \<and>
        s' = s\<lparr>lambda := min (max_lambda s) (lambda_vee s * lambda s),
                lambda_vee := lambda_vee s * 2\<rparr>"
    have "lambda s \<le> lambda s'" using r m bounds by (simp add: lambda_in_bounds_def)
    moreover have "0 < lambda s \<and> lambda s < max_lambda s \<longrightarrow> lambda s < lambda s'"
      using r m' by simp
    ultimately show ?thesis using inc r b' by (intro exI[of _ s1]) simp
  next
    assume a: "\<not> error_total lin - after_error_total k aom s1 < 0 \<and> step' \<and>
        s' = s1\<lparr>lambda := max (min_lambda s) (lambda s / 3), lambda_vee := 2\<rparr>"
    then show ?thesis using inc b' by (intro exI[of _ s1]) simp
  qed
qed

lemmas lm_eval = lm_trial_def bind_res_def Let_def maxCoeff_def damped_def apply_increment_def
  update_points_def error_total_def after_error_total_def example_kernels_def
  example_linearization_def KeypointVioEstimator_def example_config_def

theorem lm_trial_accept_reject_witness:
  "\<exists>s1. apply_increment example_kernels AbsOrderMap_empty example_linearization
                (solve example_linearization (damped (Hdiag example_linearization)
                   (lambda (KeypointVioEstimator example_config))
                   (min_lambda (KeypointVioEstimator example_config))))
                (KeypointVioEstimator example_config) = Inr s1
           \<and> (True \<longleftrightarrow> after_error_total example_kernels AbsOrderMap_empty s1
                           \<le> error_total example_linearization)"
proof -
  have trial: "lm_trial example_kernels AbsOrderMap_empty example_linearization
     (KeypointVioEstimator example_config, False, False)
   = Inr (KeypointVioEstimator example_config, True, True)"
    by (simp add: lm_eval)
  have bounds: "lambda_in_bounds (KeypointVioEstimator example_config)"
    by (simp add: lambda_in_bounds_def KeypointVioEstimator_def example_config_def)
  from lm_trial_accept_reject[OF trial bounds] show ?thesis by blast
qed

text \<open>
  Claim C2 as stated fails in both branches. With a recomputed error equal to the
  error of the linearisation (both 1) \<^verbatim>\<open>f_diff\<close> is 0, the test \<^verbatim>\<open>f_diff < 0\<close> is false
  and the step is accepted although the error has not decreased. With \<open>\<lambda>\<close> already at
  \<^verbatim>\<open>max_lambda = 100\<close> a rejected trial leaves \<open>\<lambda>\<close> at 100.
\<close>

theorem lm_trial_counterexample:
  "lm_trial example_kernels AbsOrderMap_empty example_linearization
     (KeypointVioEstimator example_config, False, False)
   = Inr (KeypointVioEstimator example_config, True, True)
   \<and> after_error_total example_kernels AbsOrderMap_empty (KeypointVioEstimator example_config)
       = error_total example_linearization
   \<and> lm_trial (example_kernels\<lparr>computeError := (\<lambda>s. 2)\<rparr>) AbsOrderMap_empty example_linearization
       ((KeypointVioEstimator example_config)\<lparr>lambda := 100\<rparr>, False, False)
     = Inr ((KeypointVioEstimator example_config)\<lparr>lambda := 100, lambda_vee := 4\<rparr>, False, True)
   \<and> max_lambda (KeypointVioEstimator example_config) = 100"
  by (simp add: lm_eval)

subsection \<open>Triangulation of a new landmark\<close>











lemmas tri_eval = triangulate_landmark_def triangulate_candidate_def try_candidate_def
  collect_kp_obs_def bind_res_def vec_at_def at_map_def map_at_def getPoseStateWithLin_def
  PoseStateWithLin_of_def squaredNorm_def min_triang_distance2_def triangulation_accepted_def
  addLandmark_def addObservation_def candidate_baseline2_def Let_def
  example_kernels_def example_config_def example_first_window_def example_initial_def
  example_stereo_frame_def example_pose_def initialize_def KeypointVioEstimator_def


subsection \<open>What the optimiser leaves alone\<close>

lemma same_bookkeeping_refl [simp]: "same_bookkeeping s s"
  by (simp add: same_bookkeeping_def)

lemma same_bookkeeping_trans:
  "same_bookkeeping s s1 \<Longrightarrow> same_bookkeeping s1 s2 \<Longrightarrow> same_bookkeeping s s2"
  by (simp add: same_bookkeeping_def)

lemma apply_poses_keys: "apply_poses k aom inc xs = Inr ys \<Longrightarrow> map fst ys = map fst xs"
proof (induction xs arbitrary: ys)
  case Nil
  then show ?case by simp
next
  case (Cons x xs)
  from Cons.prems obtain ent where e: "map_at (abs_order_map aom) (fst x) = Inr ent"
    by (cases "map_at (abs_order_map aom) (fst x)") simp_all
  from Cons.prems e obtain r where r: "apply_poses k aom inc xs = Inr r"
    by (cases "apply_poses k aom inc xs") simp_all
  from Cons.prems e r Cons.IH[OF r] show ?case by auto
qed

lemma apply_states_keys: "apply_states k aom inc xs = Inr ys \<Longrightarrow> map fst ys = map fst xs"
proof (induction xs arbitrary: ys)
  case Nil
  then show ?case by simp
next
  case (Cons x xs)
  from Cons.prems obtain ent where e: "map_at (abs_order_map aom) (fst x) = Inr ent"
    by (cases "map_at (abs_order_map aom) (fst x)") simp_all
  from Cons.prems e obtain r where r: "apply_states k aom inc xs = Inr r"
    by (cases "apply_states k aom inc xs") simp_all
  from Cons.prems e r Cons.IH[OF r] show ?case by auto
qed

lemma apply_increment_bookkeeping:
  assumes "apply_increment k aom lin inc s = Inr s1"
  shows "same_bookkeeping s s1 \<and> opt_started s1 = opt_started s"
proof -
  from assms obtain ps where ps: "apply_poses k aom inc (frame_poses s) = Inr ps"
    by (cases "apply_poses k aom inc (frame_poses s)") (simp_all add: apply_increment_def bind_res_def)
  from assms ps obtain ss where ss: "apply_states k aom inc (frame_states s) = Inr ss"
    by (cases "apply_states k aom inc (frame_states s)") (simp_all add: apply_increment_def bind_res_def)
  from assms ps ss have "s1 = s\<lparr>frame_poses := ps, frame_states := ss, lmdb := update_points lin inc (lmdb s)\<rparr>"
    by (simp add: apply_increment_def bind_res_def)
  with apply_poses_keys[OF ps] apply_states_keys[OF ss] show ?thesis
    by (simp add: same_bookkeeping_def)
qed

lemma lm_trial_bookkeeping:
  assumes "lm_trial k aom lin st = Inr st'"
  shows "same_bookkeeping (fst st) (fst st') \<and> opt_started (fst st') = opt_started (fst st)"
proof -
  obtain s b c where st: "st = (s, b, c)" by (cases st) auto
  obtain s' b' c' where st': "st' = (s', b', c')" by (cases st') auto
  from assms[unfolded st st'] obtain s1 where
    inc: "apply_increment k aom lin (solve lin (damped (Hdiag lin) (lambda s) (min_lambda s))) s = Inr s1"
    and c: "(s' = s\<lparr>lambda := min (max_lambda s) (lambda_vee s * lambda s),
                lambda_vee := lambda_vee s * 2\<rparr>)
     \<or> (s' = s1\<lparr>lambda := max (min_lambda s) (lambda s / 3), lambda_vee := 2\<rparr>)"
    by (rule lm_trial_cases) blast
  from c apply_increment_bookkeeping[OF inc] show ?thesis
    unfolding st st' by (auto simp: same_bookkeeping_def)
qed

lemma lm_loop_bookkeeping:
  assumes "lm_loop k aom lin n st = Inr st'"
  shows "same_bookkeeping (fst st) (fst st') \<and> opt_started (fst st') = opt_started (fst st)"
  using assms
proof (induction n arbitrary: st)
  case 0
  then show ?case by simp
next
  case (Suc n)
  show ?case
  proof (cases "fst (snd st) \<or> snd (snd st)")
    case True
    with Suc.prems show ?thesis by simp
  next
    case False
    show ?thesis
    proof (cases "lm_trial k aom lin st")
      case (Inl e)
      with False Suc.prems show ?thesis by simp
    next
      case (Inr st1)
      with False Suc.prems have run: "lm_loop k aom lin n st1 = Inr st'" by simp
      from lm_trial_bookkeeping[OF Inr] Suc.IH[OF run] show ?thesis
        by (auto intro: same_bookkeeping_trans)
    qed
  qed
qed

lemma gn_step_bookkeeping:
  assumes "gn_step k aom lin s = Inr st'"
  shows "same_bookkeeping s (fst st') \<and> opt_started (fst st') = opt_started s"
proof -
  let ?inc = "solve lin (damped (Hdiag lin) (min_lambda s) (min_lambda s))"
  from assms(1) obtain mi where mi: "maxCoeff ?inc = Inr mi"
    by (cases "maxCoeff ?inc") (simp_all add: gn_step_def bind_res_def Let_def)
  from assms(1) mi obtain s1 where s1: "apply_increment k aom lin ?inc s = Inr s1"
    by (cases "apply_increment k aom lin ?inc s") (simp_all add: gn_step_def bind_res_def Let_def)
  from assms(1) mi s1 have "fst st' = s1" by (auto simp: gn_step_def bind_res_def Let_def)
  with apply_increment_bookkeeping[OF s1] show ?thesis by simp
qed

lemma optimize_iters_bookkeeping:
  assumes "optimize_iters k aom n iter s = Inr s'"
  shows "same_bookkeeping s s' \<and> opt_started s' = opt_started s"
  using assms
proof (induction n arbitrary: iter s)
  case 0
  then show ?case by simp
next
  case (Suc n)
  let ?r = "if vio_use_lm (config s)
            then lm_loop k aom (linearize k aom s) 10 (s, False, False)
            else gn_step k aom (linearize k aom s) s"
  from Suc.prems(1) obtain st where st: "?r = Inr st"
    by (cases ?r) simp_all
  have b: "same_bookkeeping s (fst st) \<and> opt_started (fst st) = opt_started s"
  proof (cases "vio_use_lm (config s)")
    case True
    with st lm_loop_bookkeeping[of k aom "linearize k aom s" 10 "(s, False, False)" st]
    show ?thesis by simp
  next
    case False
    with st gn_step_bookkeeping[of k aom "linearize k aom s" s st]
    show ?thesis by simp
  qed
  let ?s2 = "if iter = vio_filter_iteration (config (fst st))
             then (fst st)\<lparr>lmdb := filterOutliers k (fst st)\<rparr> else fst st"
  have b2: "same_bookkeeping s ?s2 \<and> opt_started ?s2 = opt_started s"
    using b by (simp add: same_bookkeeping_def)
  show ?case
  proof (cases "snd (snd st)")
    case True
    with Suc.prems(1) st have "s' = ?s2" by (simp add: Let_def)
    with b2 show ?thesis by simp
  next
    case False
    with Suc.prems(1) st have "optimize_iters k aom n (iter + 1) ?s2 = Inr s'"
      by (simp add: Let_def)
    from Suc.IH[OF this] b2 show ?thesis by (auto intro: same_bookkeeping_trans)
  qed
qed

lemma optimize_bookkeeping:
  assumes "optimize k s = Inr s'"
  shows "same_bookkeeping s s'
         \<and> (opt_started s' \<longleftrightarrow> opt_started s \<or> length (frame_states s) > 4)"
proof (cases "opt_started s \<or> length (frame_states s) > 4")
  case False
  with assms show ?thesis by (simp add: optimize_def)
next
  case True
  let ?a1 = "aom_poses (marg_order s) (map fst (frame_poses s)) AbsOrderMap_empty"
  from assms(1) True obtain aom1 where a1: "?a1 = Inr aom1"
    by (cases ?a1) (simp_all add: optimize_def bind_res_def)
  let ?a2 = "aom_states (marg_order s) (map fst (frame_states s)) aom1"
  from assms(1) True a1 obtain aom where a2: "?a2 = Inr aom"
    by (cases ?a2) (simp_all add: optimize_def bind_res_def)
  from assms(1) True a1 a2 have
    "optimize_iters k aom (nat (vio_max_iterations (config s))) 0 (s\<lparr>opt_started := True\<rparr>) = Inr s'"
    by (simp add: optimize_def bind_res_def)
  from optimize_iters_bookkeeping[OF this] True show ?thesis
    by (simp add: same_bookkeeping_def)
qed


subsection \<open>The keyframe decision\<close>

lemma triangulate_landmark_only_lmdb:
  assumes "triangulate_landmark k f lm_id sn = Inr sn'"
  shows "\<exists>db. fst sn' = (fst sn)\<lparr>lmdb := db\<rparr>"
proof -
  let ?c = "triangulate_candidates k (fst sn) f lm_id (collect_kp_obs lm_id (prev_opt_flow_res (fst sn)))"
  from assms obtain r where r: "?c = Inr r"
    by (cases ?c) (simp_all add: triangulate_landmark_def bind_res_def Let_def)
  show ?thesis
  proof (cases r)
    case None
    with assms r have "sn' = sn" by (simp add: triangulate_landmark_def bind_res_def Let_def)
    then show ?thesis by (intro exI[of _ "lmdb (fst sn)"]) simp
  next
    case (Some p)
    let ?a = "add_observations (collect_kp_obs lm_id (prev_opt_flow_res (fst sn)))
                 (addLandmark lm_id
                    \<lparr>kf_id = \<lparr>frame_id = t_ns f, cam_id = 0\<rparr>,
                     dir = stereographic_project k p,
                     id_inv_depth = dbl_value (snd (snd (snd p)))\<rparr>
                    (lmdb (fst sn)))"
    from assms r Some obtain db where db: "?a = Inr db"
      by (cases ?a) (simp_all add: triangulate_landmark_def bind_res_def Let_def)
    with assms r Some have "fst sn' = (fst sn)\<lparr>lmdb := db\<rparr>"
      by (auto simp: triangulate_landmark_def bind_res_def Let_def)
    then show ?thesis by blast
  qed
qed

lemma triangulate_all_only_lmdb:
  assumes "triangulate_all k f lms sn = Inr sn'"
  shows "\<exists>db. fst sn' = (fst sn)\<lparr>lmdb := db\<rparr>"
  using assms
proof (induction lms arbitrary: sn)
  case Nil
  then show ?case by (intro exI[of _ "lmdb (fst sn)"]) simp
next
  case (Cons lm lms)
  from Cons.prems obtain sn1 where 1: "triangulate_landmark k f lm sn = Inr sn1"
    by (cases "triangulate_landmark k f lm sn") simp_all
  with Cons.prems have 2: "triangulate_all k f lms sn1 = Inr sn'" by simp
  from triangulate_landmark_only_lmdb[OF 1] obtain db1 where d1: "fst sn1 = (fst sn)\<lparr>lmdb := db1\<rparr>" by blast
  from Cons.IH[OF 2] obtain db2 where d2: "fst sn' = (fst sn1)\<lparr>lmdb := db2\<rparr>" by blast
  from d1 d2 have "fst sn' = (fst sn)\<lparr>lmdb := db2\<rparr>" by simp
  then show ?case by blast
qed

lemma keyframe_step_taken:
  assumes "keyframe_step k f a s = Inr s'" "take_kf s"
  shows "\<exists>db n. s' = s\<lparr>take_kf := False, frames_after_kf := 0,
                kf_ids := set_emplace (last_state_t_ns s) (kf_ids s), lmdb := db,
                num_points_kf := (num_points_kf s)(t_ns f \<mapsto> n)\<rparr>"
proof -
  let ?s1 = "s\<lparr>take_kf := False, frames_after_kf := 0,
                kf_ids := set_emplace (last_state_t_ns s) (kf_ids s)\<rparr>"
  let ?t = "triangulate_all k f (unconnected_obs0 a) (?s1, 0)"
  from assms obtain sn where sn: "?t = Inr sn"
    by (cases ?t) (simp_all add: keyframe_step_def bind_res_def)
  from triangulate_all_only_lmdb[OF sn] obtain db where db: "fst sn = ?s1\<lparr>lmdb := db\<rparr>" by auto
  from assms sn have "s' = (fst sn)\<lparr>num_points_kf := (num_points_kf (fst sn))(t_ns f \<mapsto> snd sn)\<rparr>"
    by (simp add: keyframe_step_def bind_res_def)
  with db show ?thesis by (intro exI[of _ db] exI[of _ "snd sn"]) simp
qed

lemma keyframe_step_not_taken:
  assumes "keyframe_step k f a s = Inr s'" "\<not> take_kf s"
  shows "s' = s\<lparr>frames_after_kf := frames_after_kf s + 1\<rparr>"
  using assms by (simp add: keyframe_step_def)

lemma keyframe_ratio_low_iff:
  assumes "0 \<le> c" "c + int u < 2 ^ 64"
  shows "keyframe_ratio_low cfg c u \<longleftrightarrow>
           c + int u \<noteq> 0 \<and>
           real_of_int c / (real_of_int c + real u) < vio_new_kf_keypoints_thresh cfg"
proof -
  have "size_t_of_int (c + int u) = nat (c + int u)"
    using assms by (simp add: size_t_of_int_def)
  moreover have "real (nat (c + int u)) = real_of_int c + real u"
    using assms by simp
  ultimately show ?thesis
    using assms by (auto simp: keyframe_ratio_low_def dbl_div_def)
qed

text \<open>
  Claim C3, as the code has it. In \<^verbatim>\<open>measure\<close> the current frame is promoted to a keyframe
  if and only if the flag \<^verbatim>\<open>take_kf\<close> is already set on entry, or
  \<^verbatim>\<open>connected0 / (connected0 + |unconnected_obs0|) < vio_new_kf_keypoints_thresh\<close> and
  \<^verbatim>\<open>frames_after_kf > vio_min_frames_after_kf\<close>. A promoted frame enters \<^verbatim>\<open>kf_ids\<close>, resets
  \<^verbatim>\<open>frames_after_kf\<close> and records its number of new landmarks; any other frame only
  increments \<^verbatim>\<open>frames_after_kf\<close>. In both cases the flag is clear afterwards, so it is
  set on entry only for the first frame after construction. The ratio test is the
  comparison of the real quotient and is false when the frame has no keypoint in
  camera 0 (the quotient of the doubles is then not-a-number).
\<close>

theorem keyframe_decision:
  assumes "keyframe_step k f a (decide_take_kf a s) = Inr s'"
  shows "(if take_kf s \<or>
             (keyframe_ratio_low (config s) (connected0 a) (length (unconnected_obs0 a)) \<and>
              vio_min_frames_after_kf (config s) < frames_after_kf s)
          then kf_ids s' = set_emplace (last_state_t_ns s) (kf_ids s) \<and> frames_after_kf s' = 0
               \<and> (\<exists>n. num_points_kf s' = (num_points_kf s)(t_ns f \<mapsto> n))
          else kf_ids s' = kf_ids s \<and> frames_after_kf s' = frames_after_kf s + 1
               \<and> num_points_kf s' = num_points_kf s \<and> lmdb s' = lmdb s)
         \<and> \<not> take_kf s'
         \<and> (0 \<le> connected0 a \<and> connected0 a + int (length (unconnected_obs0 a)) < 2 ^ 64 \<longrightarrow>
              (keyframe_ratio_low (config s) (connected0 a) (length (unconnected_obs0 a)) \<longleftrightarrow>
                 connected0 a + int (length (unconnected_obs0 a)) \<noteq> 0 \<and>
                 real_of_int (connected0 a)
                   / (real_of_int (connected0 a) + real (length (unconnected_obs0 a)))
                 < vio_new_kf_keypoints_thresh (config s)))"
proof -
  let ?c = "take_kf s \<or>
             (keyframe_ratio_low (config s) (connected0 a) (length (unconnected_obs0 a)) \<and>
              vio_min_frames_after_kf (config s) < frames_after_kf s)"
  have r: "0 \<le> connected0 a \<and> connected0 a + int (length (unconnected_obs0 a)) < 2 ^ 64 \<longrightarrow>
              (keyframe_ratio_low (config s) (connected0 a) (length (unconnected_obs0 a)) \<longleftrightarrow>
                 connected0 a + int (length (unconnected_obs0 a)) \<noteq> 0 \<and>
                 real_of_int (connected0 a)
                   / (real_of_int (connected0 a) + real (length (unconnected_obs0 a)))
                 < vio_new_kf_keypoints_thresh (config s))"
    using keyframe_ratio_low_iff by blast
  show ?thesis
  proof (cases ?c)
    case True
    then have t: "take_kf (decide_take_kf a s)" by (auto simp: decide_take_kf_def)
    have d: "decide_take_kf a s = s\<lparr>take_kf := True\<rparr>"
      using True by (auto simp: decide_take_kf_def)
    from keyframe_step_taken[OF assms t] obtain db n where
      "s' = (decide_take_kf a s)\<lparr>take_kf := False, frames_after_kf := 0,
                kf_ids := set_emplace (last_state_t_ns (decide_take_kf a s)) (kf_ids (decide_take_kf a s)),
                lmdb := db,
                num_points_kf := (num_points_kf (decide_take_kf a s))(t_ns f \<mapsto> n)\<rparr>" by blast
    then have "kf_ids s' = set_emplace (last_state_t_ns s) (kf_ids s)" "frames_after_kf s' = 0"
        "num_points_kf s' = (num_points_kf s)(t_ns f \<mapsto> n)" "\<not> take_kf s'"
      unfolding d by simp_all
    with True r show ?thesis by auto
  next
    case False
    then have d: "decide_take_kf a s = s" and t: "\<not> take_kf (decide_take_kf a s)"
      by (auto simp: decide_take_kf_def)
    from keyframe_step_not_taken[OF assms t] have "s' = s\<lparr>frames_after_kf := frames_after_kf s + 1\<rparr>"
      unfolding d .
    then have "kf_ids s' = kf_ids s" "frames_after_kf s' = frames_after_kf s + 1"
       "num_points_kf s' = num_points_kf s" "lmdb s' = lmdb s" "take_kf s' = take_kf s" by simp_all
    with False r show ?thesis by auto
  qed
qed

lemmas kf_eval = keyframe_step_def decide_take_kf_def keyframe_ratio_low_def dbl_div_def
  size_t_of_int_def example_tracking_window_def example_association_def
  measure_frame_def propagate_def association_empty_def optimize_def marginalize_def

theorem keyframe_decision_witness:
  "kf_ids (example_tracking_window\<lparr>frames_after_kf := 0, kf_ids := [1],
       lmdb := \<lparr>kpts = [7 \<mapsto> \<lparr>kf_id = \<lparr>frame_id = 1, cam_id = 0\<rparr>, dir = (0, 0), id_inv_depth = 1\<rparr>],
          obs = [(\<lparr>frame_id = 1, cam_id = 0\<rparr>,
                  [(\<lparr>frame_id = 1, cam_id = 0\<rparr>, [\<lparr>kpt_id = 7, pos = (0, 0)\<rparr>]),
                   (\<lparr>frame_id = 1, cam_id = 1\<rparr>, [\<lparr>kpt_id = 7, pos = (1, 0)\<rparr>])])]\<rparr>,
       num_points_kf := [1 \<mapsto> 1]\<rparr>)
     = set_emplace (last_state_t_ns example_tracking_window) (kf_ids example_tracking_window)
   \<and> \<not> take_kf example_tracking_window
   \<and> keyframe_ratio_low (config example_tracking_window) (connected0 example_association)
         (length (unconnected_obs0 example_association))
   \<and> vio_min_frames_after_kf (config example_tracking_window)
       < frames_after_kf example_tracking_window"
proof -
  have step: "keyframe_step example_kernels example_stereo_frame example_association
     (decide_take_kf example_association example_tracking_window)
   = Inr (example_tracking_window\<lparr>frames_after_kf := 0, kf_ids := [1],
       lmdb := \<lparr>kpts = [7 \<mapsto> \<lparr>kf_id = \<lparr>frame_id = 1, cam_id = 0\<rparr>, dir = (0, 0), id_inv_depth = 1\<rparr>],
          obs = [(\<lparr>frame_id = 1, cam_id = 0\<rparr>,
                  [(\<lparr>frame_id = 1, cam_id = 0\<rparr>, [\<lparr>kpt_id = 7, pos = (0, 0)\<rparr>]),
                   (\<lparr>frame_id = 1, cam_id = 1\<rparr>, [\<lparr>kpt_id = 7, pos = (1, 0)\<rparr>])])]\<rparr>,
       num_points_kf := [1 \<mapsto> 1]\<rparr>)"
    by (simp add: kf_eval tri_eval)
  have c: "\<not> take_kf example_tracking_window"
      "keyframe_ratio_low (config example_tracking_window) (connected0 example_association)
         (length (unconnected_obs0 example_association))"
      "vio_min_frames_after_kf (config example_tracking_window)
         < frames_after_kf example_tracking_window"
    by (simp_all add: kf_eval tri_eval)
  from keyframe_decision[OF step] c show ?thesis by simp
qed

text \<open>
  Claim C3 as stated fails at the first frame: the estimator just initialised has
  \<^verbatim>\<open>frames_after_kf = 0\<close>, which is not above \<^verbatim>\<open>vio_min_frames_after_kf = 5\<close>, and the frame
  is promoted all the same.
\<close>

theorem first_frame_counterexample:
  "(case measure_frame example_kernels example_stereo_frame None example_initial of
      Inl e \<Rightarrow> False
    | Inr s' \<Rightarrow> kf_ids s' = [1] \<and> num_points_kf s' 1 = Some 1)
   \<and> kf_ids example_initial = []
   \<and> \<not> vio_min_frames_after_kf (config example_initial) < frames_after_kf example_initial"
  by (simp add: kf_eval tri_eval)


subsection \<open>The first frame\<close>






















subsection \<open>The covisibility test and keyframes without landmarks\<close>








subsection \<open>The size of the window after a frame\<close>

text \<open>
  The keys of \<^verbatim>\<open>frame_states\<close> are in increasing order, so the states that
  \<^verbatim>\<open>marginalize\<close> removes from it, those before \<^verbatim>\<open>last_state_to_marg\<close>, are a prefix
  whose length is \<^verbatim>\<open>states_to_remove\<close>.
\<close>

lemma map_put_keys: "set (map fst (map_put k v m)) = insert k (set (map fst m))"
  by (induction m) auto

lemma map_put_length: "length (map_put k v m) \<le> Suc (length m)"
  by (induction m) auto

lemma map_put_sorted:
  "sorted_wrt (<) (map fst m) \<Longrightarrow> sorted_wrt (<) (map fst (map_put k v m))"
proof (induction m)
  case Nil
  then show ?case by simp
next
  case (Cons kv m)
  have "set (map fst (map_put k v m)) = insert k (set (map fst m))" by (rule map_put_keys)
  with Cons show ?case by (cases "k < fst kv"; cases "k = fst kv") auto
qed

lemma filter_not_in_Cons:
  "filter (\<lambda>x. x \<notin> set rest) (filter (\<lambda>x. x \<noteq> i) xs) = filter (\<lambda>x. x \<notin> set (i # rest)) xs"
  by (induction xs) auto

lemma map_erase_keys: "map fst (map_erase k m) = filter (\<lambda>x. x \<noteq> k) (map fst m)"
  by (simp add: map_erase_def filter_map comp_def)

lemma marg_states_sets:
  assumes "marg_states mo kfs last_t ks (vb0, all0, aom0) = Inr (vb, all, aom)"
      and "sorted_wrt (<) ks"
  shows "set vb = set vb0 \<union> {k \<in> set ks. k < last_t \<and> k \<in> set kfs}
         \<and> set all = set all0 \<union> {k \<in> set ks. k < last_t \<and> k \<notin> set kfs}"
  using assms
proof (induction ks arbitrary: vb0 all0 aom0)
  case Nil
  then show ?case by simp
next
  case (Cons k ks)
  show ?case
  proof (cases "k > last_t")
    case True
    with Cons.prems(2) have "\<forall>x \<in> set (k # ks). \<not> x < last_t" by auto
    moreover from True Cons.prems(1) have "vb = vb0" "all = all0" by simp_all
    ultimately show ?thesis by auto
  next
    case False
    let ?vb = "if k \<noteq> last_t \<and> k \<in> set kfs then set_emplace k vb0 else vb0"
    let ?all = "if k \<noteq> last_t \<and> k \<notin> set kfs then set_emplace k all0 else all0"
    let ?aom = "aom_advance POSE_VEL_BIAS_SIZE (aom_append k POSE_VEL_BIAS_SIZE aom0)"
    from False Cons.prems(1) have
      run: "marg_states mo kfs last_t ks (?vb, ?all, ?aom) = Inr (vb, all, aom)"
      by (cases "check_state_order mo (aom_append k POSE_VEL_BIAS_SIZE aom0) k")
         (simp_all add: Let_def)
    from Cons.prems(2) have "sorted_wrt (<) ks" by simp
    from Cons.IH[OF run this] False show ?thesis by auto
  qed
qed

lemma erase_states_all_fields:
  "map fst (frame_states (erase_states_all xs s)) =
     filter (\<lambda>x. x \<notin> set xs) (map fst (frame_states s))
   \<and> frame_poses (erase_states_all xs s) = frame_poses s
   \<and> kf_ids (erase_states_all xs s) = kf_ids s
   \<and> max_states (erase_states_all xs s) = max_states s
   \<and> max_kfs (erase_states_all xs s) = max_kfs s
   \<and> opt_started (erase_states_all xs s) = opt_started s"
proof (induction xs arbitrary: s)
  case Nil
  then show ?case by simp
next
  case (Cons i rest)
  have "filter (\<lambda>x. x \<notin> set rest) (filter (\<lambda>x. x \<noteq> i) (map fst (frame_states s)))
        = filter (\<lambda>x. x \<notin> set (i # rest)) (map fst (frame_states s))"
    by (rule filter_not_in_Cons)
  then show ?case
    by (simp only: erase_states_all.simps Cons.IH) (simp add: map_erase_keys del: set_simps)
qed

lemma demote_states_fields:
  assumes "demote_states xs s = Inr s'"
  shows "map fst (frame_states s') = filter (\<lambda>x. x \<notin> set xs) (map fst (frame_states s))
   \<and> set (map fst (frame_poses s')) = set (map fst (frame_poses s)) \<union> set xs
   \<and> kf_ids s' = kf_ids s
   \<and> max_states s' = max_states s
   \<and> max_kfs s' = max_kfs s
   \<and> opt_started s' = opt_started s"
  using assms
proof (induction xs arbitrary: s)
  case Nil
  then show ?case by simp
next
  case (Cons i rest)
  from Cons.prems obtain st where st: "map_at (frame_states s) i = Inr st"
    by (cases "map_at (frame_states s) i") simp_all
  let ?s1 = "s\<lparr>frame_poses := map_put i (PoseStateWithLin_of st) (frame_poses s),
               frame_states := map_erase i (frame_states s),
               imu_meas := map_erase i (imu_meas s)\<rparr>"
  from Cons.prems st have run: "demote_states rest ?s1 = Inr s'" by simp
  have "filter (\<lambda>x. x \<notin> set rest) (filter (\<lambda>x. x \<noteq> i) (map fst (frame_states s)))
        = filter (\<lambda>x. x \<notin> set (i # rest)) (map fst (frame_states s))"
    by (rule filter_not_in_Cons)
  moreover have "set (map fst (frame_poses ?s1)) = insert i (set (map fst (frame_poses s)))"
    by (simp add: map_put_keys del: set_map)
  moreover have "map fst (frame_states ?s1) = filter (\<lambda>x. x \<noteq> i) (map fst (frame_states s))"
    by (simp add: map_erase_keys)
  moreover have "kf_ids ?s1 = kf_ids s" "max_states ?s1 = max_states s"
    "max_kfs ?s1 = max_kfs s" "opt_started ?s1 = opt_started s" by simp_all
  moreover note Cons.IH[OF run]
  ultimately show ?case
    by (simp only:) (simp del: set_map filter_filter)
qed

lemma erase_poses_fields:
  "frame_states (erase_poses xs s) = frame_states s
   \<and> map fst (frame_poses (erase_poses xs s)) =
       filter (\<lambda>x. x \<notin> set xs) (map fst (frame_poses s))
   \<and> kf_ids (erase_poses xs s) = kf_ids s
   \<and> max_states (erase_poses xs s) = max_states s
   \<and> max_kfs (erase_poses xs s) = max_kfs s
   \<and> opt_started (erase_poses xs s) = opt_started s"
proof (induction xs arbitrary: s)
  case Nil
  then show ?case by simp
next
  case (Cons i rest)
  have "filter (\<lambda>x. x \<notin> set rest) (filter (\<lambda>x. x \<noteq> i) (map fst (frame_poses s)))
        = filter (\<lambda>x. x \<notin> set (i # rest)) (map fst (frame_poses s))"
    by (rule filter_not_in_Cons)
  then show ?case
    by (simp only: erase_poses.simps Cons.IH) (simp add: map_erase_keys del: set_simps)
qed

lemma pin_linearization_keys:
  assumes "pin_linearization last_t fs = Inr fs'"
  shows "map fst fs' = map fst fs"
proof -
  from assms obtain st where "map_at fs last_t = Inr st"
    by (cases "map_at fs last_t") (simp_all add: pin_linearization_def bind_res_def)
  with assms have "fs' = map (\<lambda>kv. if fst kv = last_t
      then (fst kv, (snd kv)\<lparr>linearized := True\<rparr>) else kv) fs"
    by (simp add: pin_linearization_def bind_res_def split: if_splits)
  then show ?thesis by (simp add: comp_def if_distrib cong: if_cong)
qed

lemma filter_sorted_from:
  assumes "sorted_wrt (<) (ks :: int list)" "j < length ks"
  shows "filter (\<lambda>x. \<not> x < ks ! j) ks = drop j ks"
  using assms
proof (induction ks arbitrary: j)
  case Nil
  then show ?case by simp
next
  case (Cons k ks)
  show ?case
  proof (cases j)
    case 0
    with Cons.prems(1) have "\<forall>x \<in> set ks. \<not> x < k" by auto
    then have "filter (\<lambda>x. \<not> x < k) ks = ks" by (simp add: filter_id_conv)
    with 0 show ?thesis by simp
  next
    case (Suc i)
    with Cons.prems have i: "i < length ks" "sorted_wrt (<) ks" by simp_all
    then have "ks ! i \<in> set ks" by simp
    with Cons.prems(1) have "k < ks ! i" by auto
    with Suc Cons.IH[OF i(2,1)] show ?thesis by simp
  qed
qed

lemma marginalize_window_shape:
  assumes run: "marginalize_window k npc s = Inr s'"
  shows "\<exists>last_t aom1 vb all aom ev idx fs s2.
    last_state_to_marg s = Inr last_t \<and>
    pin_linearization last_t (frame_states s) = Inr fs \<and>
    demote_states vb (erase_states_all all (s\<lparr>kf_ids := ev_kf_ids ev, frame_states := fs\<rparr>))
      = Inr s2 \<and>
    frame_states s' = frame_states (erase_poses (poses_to_marg ev) s2) \<and>
    frame_poses s' = frame_poses (erase_poses (poses_to_marg ev) s2) \<and>
    kf_ids s' = kf_ids (erase_poses (poses_to_marg ev) s2) \<and>
    max_states s' = max_states (erase_poses (poses_to_marg ev) s2) \<and>
    max_kfs s' = max_kfs (erase_poses (poses_to_marg ev) s2) \<and>
    opt_started s' = opt_started (erase_poses (poses_to_marg ev) s2) \<and>
    num_points_kf s' = num_points_kf (erase_poses (poses_to_marg ev) s2) \<and>
    lmdb s' = removeKeyframes (kfs_to_marg ev) (poses_to_marg ev) all
                (lmdb (erase_poses (poses_to_marg ev) s2)) \<and>
    marg_states (marg_order s) (kf_ids s) last_t (map fst (frame_states s)) ([], [], aom1)
      = Inr (vb, all, aom) \<and>
    evict_loop (max_kfs s) vb npc (num_points_kf s) (frame_poses s) (frame_states s)
       \<lparr>ev_kf_ids = kf_ids s, kfs_to_marg = [],
        poses_to_marg = filter (\<lambda>t. t \<notin> set (kf_ids s)) (map fst (frame_poses s))\<rparr>
      = Some (Inr ev) \<and>
    idx_partition (poses_to_marg ev) all vb last_t (abs_order_map aom) ([], []) = Inr idx \<and>
    marg_H s' = fst (marginalizeHelper k aom
                       (obs_to_lin (kfs_to_marg ev) last_t (obs (lmdb s))) (fst idx) (snd idx)
                       (s\<lparr>kf_ids := ev_kf_ids ev\<rparr>))"
proof -
  let ?l = "last_state_to_marg s"
  from run obtain last_t where l: "?l = Inr last_t"
    by (cases ?l) (simp_all add: marginalize_window_def bind_res_def)
  let ?a = "aom_poses (marg_order s) (map fst (frame_poses s)) AbsOrderMap_empty"
  from run l obtain aom1 where a: "?a = Inr aom1"
    by (cases ?a) (simp_all add: marginalize_window_def bind_res_def)
  let ?m = "marg_states (marg_order s) (kf_ids s) last_t (map fst (frame_states s))
              ([], [], aom1)"
  from run l a obtain acc where m: "?m = Inr acc"
    by (cases ?m) (simp_all add: marginalize_window_def bind_res_def)
  obtain vb all aom where acc: "acc = (vb, all, aom)" by (cases acc) auto
  let ?e = "evict_loop (max_kfs s) vb npc (num_points_kf s) (frame_poses s) (frame_states s)
       \<lparr>ev_kf_ids = kf_ids s, kfs_to_marg = [],
        poses_to_marg = filter (\<lambda>t. t \<notin> set (kf_ids s)) (map fst (frame_poses s))\<rparr>"
  from run l a m acc obtain ev where e: "?e = Some (Inr ev)"
    by (cases ?e; cases "the ?e")
       (simp_all add: marginalize_window_def bind_res_def)
  let ?i = "idx_partition (poses_to_marg ev) all vb last_t (abs_order_map aom) ([], [])"
  from run l a m acc e obtain idx where i: "?i = Inr idx"
    by (cases ?i) (simp_all add: marginalize_window_def bind_res_def)
  let ?p = "pin_linearization last_t (frame_states s)"
  from run l a m acc e i obtain fs where p: "?p = Inr fs"
    by (cases ?p) (simp_all add: marginalize_window_def bind_res_def Let_def)
  let ?d = "demote_states vb (erase_states_all all (s\<lparr>kf_ids := ev_kf_ids ev, frame_states := fs\<rparr>))"
  from run l a m acc e i p obtain s2 where d: "?d = Inr s2"
    by (cases ?d) (simp_all add: marginalize_window_def bind_res_def Let_def)
  from run l a m acc e i p d have
    "marg_H s' = fst (marginalizeHelper k aom
                       (obs_to_lin (kfs_to_marg ev) last_t (obs (lmdb s))) (fst idx) (snd idx)
                       (s\<lparr>kf_ids := ev_kf_ids ev\<rparr>))
     \<and> frame_states s' = frame_states (erase_poses (poses_to_marg ev) s2)
     \<and> frame_poses s' = frame_poses (erase_poses (poses_to_marg ev) s2)
     \<and> kf_ids s' = kf_ids (erase_poses (poses_to_marg ev) s2)
     \<and> max_states s' = max_states (erase_poses (poses_to_marg ev) s2)
     \<and> max_kfs s' = max_kfs (erase_poses (poses_to_marg ev) s2)
     \<and> opt_started s' = opt_started (erase_poses (poses_to_marg ev) s2)
     \<and> num_points_kf s' = num_points_kf (erase_poses (poses_to_marg ev) s2)
     \<and> lmdb s' = removeKeyframes (kfs_to_marg ev) (poses_to_marg ev) all
                 (lmdb (erase_poses (poses_to_marg ev) s2))"
    by (auto simp: marginalize_window_def bind_res_def Let_def split: if_splits)
  with l m[unfolded acc] e i p d show ?thesis by blast
qed

lemma evict_loop_exit:
  assumes "evict_loop maxk vb npc npk fp fs ev0 = Some (Inr ev)"
  shows "(vb \<noteq> [] \<longrightarrow> length (ev_kf_ids ev) \<le> maxk) \<and> (vb = [] \<longrightarrow> ev = ev0)"
proof (cases "vb = []")
  case True
  with assms show ?thesis by (simp add: evict_loop.simps)
next
  case False
  from evict_loop_rule[OF assms, where I = "\<lambda>ev. True"] False show ?thesis by auto
qed

lemma marginalize_window_sizes:
  assumes run: "marginalize_window k npc s = Inr s'"
      and sorted: "sorted_wrt (<) (map fst (frame_states s))"
      and small: "Suc (length (frame_states s)) < 2 ^ 31" "max_states s < 2 ^ 31"
  shows "length (frame_states s') < max_states s"
    and "(\<exists>t \<in> set (map fst (frame_poses s')). t \<notin> set (map fst (frame_poses s)))
           \<longrightarrow> length (kf_ids s') \<le> max_kfs s"
    and "length (kf_ids s') \<le> max_kfs s \<or> kf_ids s' = kf_ids s"
    and "max_states s' = max_states s" "max_kfs s' = max_kfs s" "opt_started s' = opt_started s"
proof -
  from marginalize_window_shape[OF run] obtain last_t aom1 vb all aom ev fs s2 where
    l: "last_state_to_marg s = Inr last_t" and
    m: "marg_states (marg_order s) (kf_ids s) last_t (map fst (frame_states s)) ([], [], aom1)
          = Inr (vb, all, aom)" and
    e: "evict_loop (max_kfs s) vb npc (num_points_kf s) (frame_poses s) (frame_states s)
          \<lparr>ev_kf_ids = kf_ids s, kfs_to_marg = [],
           poses_to_marg = filter (\<lambda>t. t \<notin> set (kf_ids s)) (map fst (frame_poses s))\<rparr>
          = Some (Inr ev)" and
    p: "pin_linearization last_t (frame_states s) = Inr fs" and
    d: "demote_states vb (erase_states_all all (s\<lparr>kf_ids := ev_kf_ids ev, frame_states := fs\<rparr>))
          = Inr s2" and
    f: "frame_states s' = frame_states (erase_poses (poses_to_marg ev) s2)"
       "frame_poses s' = frame_poses (erase_poses (poses_to_marg ev) s2)"
       "kf_ids s' = kf_ids (erase_poses (poses_to_marg ev) s2)"
       "max_states s' = max_states (erase_poses (poses_to_marg ev) s2)"
       "max_kfs s' = max_kfs (erase_poses (poses_to_marg ev) s2)"
       "opt_started s' = opt_started (erase_poses (poses_to_marg ev) s2)"
    by blast
  let ?s0 = "s\<lparr>kf_ids := ev_kf_ids ev, frame_states := fs\<rparr>"
  let ?ks = "map fst (frame_states s)"
  note ep = erase_poses_fields[of "poses_to_marg ev" s2]
  note dm = demote_states_fields[OF d]
  note ea = erase_states_all_fields[of all ?s0]
  note pk = pin_linearization_keys[OF p]
  show "max_states s' = max_states s" "max_kfs s' = max_kfs s" "opt_started s' = opt_started s"
    using f ep dm ea by simp_all
  have kf: "kf_ids s' = ev_kf_ids ev" using f ep dm ea by simp
  have keys: "map fst (frame_states s') =
      filter (\<lambda>x. x \<notin> set vb) (filter (\<lambda>x. x \<notin> set all) ?ks)"
    using f(1) ep dm ea pk by simp
  let ?j = "nat (states_to_remove (length (frame_states s)) (max_states s))"
  from l have j: "?j < length (frame_states s)" and last_t: "last_t = ?ks ! ?j"
    by (auto simp: last_state_to_marg_def bind_res_def vec_at_def split: if_splits)
  from marg_states_sets[OF m sorted] have
    sets: "set vb = {k \<in> set ?ks. k < last_t \<and> k \<in> set (kf_ids s)}"
          "set all = {k \<in> set ?ks. k < last_t \<and> k \<notin> set (kf_ids s)}"
    by simp_all
  have "filter (\<lambda>x. x \<notin> set vb) (filter (\<lambda>x. x \<notin> set all) ?ks)
        = filter (\<lambda>x. \<not> x < last_t) ?ks"
    unfolding filter_filter by (rule filter_cong) (auto simp: sets)
  also have "\<dots> = drop ?j ?ks"
    unfolding last_t using sorted j by (intro filter_sorted_from) simp_all
  finally have "map fst (frame_states s') = drop ?j ?ks" using keys by simp
  then have "length (map fst (frame_states s')) = length (drop ?j ?ks)" by simp
  then have len: "length (frame_states s') = length (frame_states s) - ?j" by simp
  have str: "states_to_remove (length (frame_states s)) (max_states s)
       = int (length (frame_states s)) - int (max_states s) + 1"
    using small by (rule states_to_remove_small)
  from len j show "length (frame_states s') < max_states s"
    unfolding str by linarith
  from evict_loop_exit[OF e] have
    ex: "vb \<noteq> [] \<longrightarrow> length (ev_kf_ids ev) \<le> max_kfs s" "vb = [] \<longrightarrow> ev_kf_ids ev = kf_ids s"
    by auto
  with kf show "length (kf_ids s') \<le> max_kfs s \<or> kf_ids s' = kf_ids s" by auto
  have "set (map fst (frame_poses s')) \<subseteq> set (map fst (frame_poses s)) \<union> set vb"
  proof -
    have "map fst (frame_poses s') =
        filter (\<lambda>x. x \<notin> set (poses_to_marg ev)) (map fst (frame_poses s2))"
      using f(2) ep by simp
    then have "set (map fst (frame_poses s')) \<subseteq> set (map fst (frame_poses s2))"
      by (simp del: set_map) 
    also have "\<dots> = set (map fst (frame_poses s)) \<union> set vb"
      using dm ea by simp
    finally show ?thesis .
  qed
  then have "(\<exists>t \<in> set (map fst (frame_poses s')). t \<notin> set (map fst (frame_poses s)))
      \<longrightarrow> vb \<noteq> []" by auto
  with ex kf show "(\<exists>t \<in> set (map fst (frame_poses s')). t \<notin> set (map fst (frame_poses s)))
           \<longrightarrow> length (kf_ids s') \<le> max_kfs s" by auto
qed

lemma filter_set_emplace: "\<not> P x \<Longrightarrow> filter P (set_emplace x xs) = filter P xs"
  by (induction xs) auto

lemma sorted_set_emplace: "sorted_wrt (<) xs \<Longrightarrow> sorted_wrt (<) (set_emplace x xs)"
  by (induction xs) auto

lemma length_filter_mono:
  "(\<And>x. x \<in> set xs \<Longrightarrow> P x \<Longrightarrow> Q x) \<Longrightarrow> length (filter P xs) \<le> length (filter Q xs)"
proof (induction xs)
  case Nil
  then show ?case by simp
next
  case (Cons a xs)
  then have "length (filter P xs) \<le> length (filter Q xs)" by simp
  with Cons.prems[of a] show ?case by auto
qed

lemma evict_pass_distinct:
  assumes "evict_pass npc npk fp fs ev = Inr ev'" "sorted_wrt (<) (ev_kf_ids ev)"
  shows "sorted_wrt (<) (ev_kf_ids ev')"
  using assms
  by (auto simp: evict_pass_def bind_res_def set_erase_def sorted_wrt_filter split: sum.splits)

lemma marginalize_window_inv:
  assumes run: "marginalize_window k npc s = Inr s'"
      and sorted: "sorted_wrt (<) (map fst (frame_states s))"
      and dist: "sorted_wrt (<) (kf_ids s)"
      and small: "Suc (length (frame_states s)) < 2 ^ 31" "max_states s < 2 ^ 31"
  shows "sorted_wrt (<) (map fst (frame_states s'))"
    and "sorted_wrt (<) (kf_ids s')"
    and "length (keyframes_outside s') \<le> max_kfs s
         \<or> length (keyframes_outside s') \<le> length (keyframes_outside s)"
proof -
  from marginalize_window_shape[OF run] obtain last_t aom1 vb all aom ev fs s2 where
    l: "last_state_to_marg s = Inr last_t" and
    m: "marg_states (marg_order s) (kf_ids s) last_t (map fst (frame_states s)) ([], [], aom1)
          = Inr (vb, all, aom)" and
    e: "evict_loop (max_kfs s) vb npc (num_points_kf s) (frame_poses s) (frame_states s)
          \<lparr>ev_kf_ids = kf_ids s, kfs_to_marg = [],
           poses_to_marg = filter (\<lambda>t. t \<notin> set (kf_ids s)) (map fst (frame_poses s))\<rparr>
          = Some (Inr ev)" and
    p: "pin_linearization last_t (frame_states s) = Inr fs" and
    d: "demote_states vb (erase_states_all all (s\<lparr>kf_ids := ev_kf_ids ev, frame_states := fs\<rparr>))
          = Inr s2" and
    f: "frame_states s' = frame_states (erase_poses (poses_to_marg ev) s2)"
       "kf_ids s' = kf_ids (erase_poses (poses_to_marg ev) s2)"
    by blast
  let ?s0 = "s\<lparr>kf_ids := ev_kf_ids ev, frame_states := fs\<rparr>"
  let ?ks = "map fst (frame_states s)"
  note ep = erase_poses_fields[of "poses_to_marg ev" s2]
  note dm = demote_states_fields[OF d]
  note ea = erase_states_all_fields[of all ?s0]
  note pk = pin_linearization_keys[OF p]
  have kf: "kf_ids s' = ev_kf_ids ev" using f ep dm ea by simp
  have keys: "map fst (frame_states s') =
      filter (\<lambda>x. x \<notin> set vb) (filter (\<lambda>x. x \<notin> set all) ?ks)"
    using f(1) ep dm ea pk by simp
  show "sorted_wrt (<) (map fst (frame_states s'))"
    unfolding keys using sorted by (intro sorted_wrt_filter)
  show "sorted_wrt (<) (kf_ids s')"
    unfolding kf
    using evict_loop_rule[OF e, where I = "\<lambda>ev. sorted_wrt (<) (ev_kf_ids ev)"]
      evict_pass_distinct dist
    by auto
  from marg_states_sets[OF m sorted] have
    sets: "set vb = {k \<in> set ?ks. k < last_t \<and> k \<in> set (kf_ids s)}"
          "set all = {k \<in> set ?ks. k < last_t \<and> k \<notin> set (kf_ids s)}"
    by simp_all
  from evict_loop_exit[OF e] have
    ex: "vb \<noteq> [] \<longrightarrow> length (ev_kf_ids ev) \<le> max_kfs s" "vb = [] \<longrightarrow> ev_kf_ids ev = kf_ids s"
    by auto
  show "length (keyframes_outside s') \<le> max_kfs s
         \<or> length (keyframes_outside s') \<le> length (keyframes_outside s)"
  proof (cases "vb = []")
    case False
    with ex kf have "length (kf_ids s') \<le> max_kfs s" by simp
    moreover have "length (keyframes_outside s') \<le> length (kf_ids s')"
      unfolding keyframes_outside_def by (rule length_filter_le)
    ultimately show ?thesis by simp
  next
    case True
    with ex kf have kf': "kf_ids s' = kf_ids s" by simp
    have "length (keyframes_outside s') \<le> length (keyframes_outside s)"
      unfolding keyframes_outside_def kf'
    proof (rule length_filter_mono)
      fix x assume x: "x \<in> set (kf_ids s)" "x \<notin> set (map fst (frame_states s'))"
      show "x \<notin> set ?ks"
      proof
        assume "x \<in> set ?ks"
        with x(2) have "x \<in> set vb \<or> x \<in> set all" unfolding keys by auto
        with True sets(2) x(1) show False by auto
      qed
    qed
    then show ?thesis by simp
  qed
qed

lemma propagate_state:
  assumes "propagate k f meas s = Inr s1"
      and "meas = None \<longrightarrow> last_state_t_ns s \<in> set (map fst (frame_states s))"
  shows "(frame_states s1 = frame_states s
            \<or> (\<exists>v. frame_states s1 = map_put (t_ns f) v (frame_states s)))
         \<and> last_state_t_ns s1 \<in> set (map fst (frame_states s1))
         \<and> kf_ids s1 = kf_ids s \<and> opt_started s1 = opt_started s
         \<and> max_states s1 = max_states s \<and> max_kfs s1 = max_kfs s"
proof (cases meas)
  case None
  with assms show ?thesis by (simp add: propagate_def)
next
  case (Some m)
  with assms obtain ls where ls: "map_of (frame_states s) (last_state_t_ns s) = Some ls"
    by (cases "map_of (frame_states s) (last_state_t_ns s)") (simp_all add: propagate_def)
  with assms Some have "s1 = s\<lparr>last_state_t_ns := t_ns f,
      frame_states := map_put (t_ns f)
         \<lparr>linearized = False, getState = (predictState k m (getState ls))\<lparr>st_t_ns := t_ns f\<rparr>\<rparr>
         (frame_states s),
      imu_meas := map_put (start_t_ns m) m (imu_meas s)\<rparr>"
    by (simp add: propagate_def Let_def split: if_splits)
  then show ?thesis by (auto simp: map_put_keys simp del: set_map)
qed

lemma keyframe_step_state:
  assumes "keyframe_step k f a s = Inr s'"
  shows "frame_states s' = frame_states s
         \<and> (kf_ids s' = kf_ids s \<or> kf_ids s' = set_emplace (last_state_t_ns s) (kf_ids s))
         \<and> opt_started s' = opt_started s
         \<and> max_states s' = max_states s \<and> max_kfs s' = max_kfs s"
proof (cases "take_kf s")
  case True
  from keyframe_step_taken[OF assms True] show ?thesis by auto
next
  case False
  from keyframe_step_not_taken[OF assms False] show ?thesis by simp
qed

lemma measure_frame_before_marginalize_inv:
  assumes run: "measure_frame k f meas s = Inr s'"
      and inv: "window_inv s"
      and ls: "meas = None \<longrightarrow> last_state_t_ns s \<in> set (map fst (frame_states s))"
  shows "\<exists>s5 npc. marginalize k npc s5 = Inr s'
     \<and> sorted_wrt (<) (map fst (frame_states s5)) \<and> sorted_wrt (<) (kf_ids s5)
     \<and> length (keyframes_outside s5) \<le> max_kfs s5
     \<and> length (frame_states s5) \<le> Suc (length (frame_states s))
     \<and> (opt_started s5 \<longleftrightarrow> opt_started s \<or> length (frame_states s5) > 4)
     \<and> max_states s5 = max_states s \<and> max_kfs s5 = max_kfs s"
proof -
  let ?p = "propagate k f meas s"
  from run obtain s1 where p: "?p = Inr s1"
    by (cases ?p) (simp_all add: measure_frame_def bind_res_def)
  let ?s2 = "s1\<lparr>prev_opt_flow_res := map_put (t_ns f) f (prev_opt_flow_res s1)\<rparr>"
  let ?a = "associate_cams (t_ns f) 0 (observations f) (association_empty, lmdb ?s2)"
  from run p obtain adb where a: "?a = Inr adb"
    by (cases ?a) (simp_all add: measure_frame_def bind_res_def)
  let ?s3 = "decide_take_kf (fst adb) (?s2\<lparr>lmdb := snd adb\<rparr>)"
  let ?k = "keyframe_step k f (fst adb) ?s3"
  from run p a obtain s4 where k4: "?k = Inr s4"
    by (cases ?k) (simp_all add: measure_frame_def bind_res_def)
  let ?o = "optimize k s4"
  from run p a k4 obtain s5 where o: "?o = Inr s5"
    by (cases ?o) (simp_all add: measure_frame_def bind_res_def)
  from run p a k4 o have m: "marginalize k (num_points_connected (fst adb)) s5 = Inr s'"
    by (simp add: measure_frame_def bind_res_def)
  note pw = propagate_state[OF p ls]
  have dw: "frame_states ?s3 = frame_states s1" "kf_ids ?s3 = kf_ids s1"
    "last_state_t_ns ?s3 = last_state_t_ns s1" "opt_started ?s3 = opt_started s1"
    "max_states ?s3 = max_states s1" "max_kfs ?s3 = max_kfs s1"
    by (simp_all add: decide_take_kf_def)
  note kw = keyframe_step_state[OF k4, unfolded dw]
  from optimize_bookkeeping[OF o] have ob: "same_bookkeeping s4 s5"
    and os: "opt_started s5 \<longleftrightarrow> opt_started s4 \<or> length (frame_states s4) > 4" by simp_all
  have fs: "map fst (frame_states s5) = map fst (frame_states s1)"
    using ob kw by (simp add: same_bookkeeping_def)
  have kf: "kf_ids s5 = kf_ids s \<or> kf_ids s5 = set_emplace (last_state_t_ns s1) (kf_ids s)"
    using ob kw pw by (auto simp: same_bookkeeping_def)
  have mx: "max_states s5 = max_states s" "max_kfs s5 = max_kfs s"
    using ob kw pw by (simp_all add: same_bookkeeping_def)
  from inv have sk: "sorted_wrt (<) (map fst (frame_states s))" "sorted_wrt (<) (kf_ids s)"
    and out: "length (keyframes_outside s) \<le> max_kfs s"
    by (simp_all add: window_inv_def)
  have sorted5: "sorted_wrt (<) (map fst (frame_states s5))"
    unfolding fs using pw sk(1) by (auto simp: map_put_sorted)
  have kfs5: "sorted_wrt (<) (kf_ids s5)"
    using kf sk(2) by (auto simp: sorted_set_emplace)
  have sub: "set (map fst (frame_states s)) \<subseteq> set (map fst (frame_states s5))"
    unfolding fs using pw by (auto simp: map_put_keys simp del: set_map)
  have in5: "last_state_t_ns s1 \<in> set (map fst (frame_states s5))"
    unfolding fs using pw by simp
  have "filter (\<lambda>t. t \<notin> set (map fst (frame_states s5))) (kf_ids s5)
        = filter (\<lambda>t. t \<notin> set (map fst (frame_states s5))) (kf_ids s)"
    using kf in5 by (auto simp: filter_set_emplace simp del: set_map)
  then have "length (keyframes_outside s5) \<le> length (keyframes_outside s)"
    unfolding keyframes_outside_def using sub by (auto intro!: length_filter_mono simp del: set_map)
  with out mx have out5: "length (keyframes_outside s5) \<le> max_kfs s5" by simp
  have "length (map fst (frame_states s5)) \<le> Suc (length (frame_states s))"
    unfolding fs using pw map_put_length by (auto simp del: length_map simp: length_map[symmetric, of _ fst])
  then have len5: "length (frame_states s5) \<le> Suc (length (frame_states s))" by simp
  have "length (frame_states s4) = length (frame_states s5)"
    using fs kw by (metis length_map)
  with os kw pw have os5: "opt_started s5 \<longleftrightarrow> opt_started s \<or> length (frame_states s5) > 4"
    by simp
  from m sorted5 kfs5 out5 len5 os5 mx show ?thesis by blast
qed

lemma measure_frame_window_inv:
  assumes run: "measure_frame k f meas s = Inr s'"
      and inv: "window_inv s"
      and ls: "meas = None \<longrightarrow> last_state_t_ns s \<in> set (map fst (frame_states s))"
  shows "window_inv s'"
proof -
  from measure_frame_before_marginalize_inv[OF run inv ls] obtain s5 npc where
    m: "marginalize k npc s5 = Inr s'" and
    sorted5: "sorted_wrt (<) (map fst (frame_states s5))" "sorted_wrt (<) (kf_ids s5)" and
    out5: "length (keyframes_outside s5) \<le> max_kfs s5" and
    len5: "length (frame_states s5) \<le> Suc (length (frame_states s))" and
    os5: "opt_started s5 \<longleftrightarrow> opt_started s \<or> length (frame_states s5) > 4" and
    mx: "max_states s5 = max_states s" "max_kfs s5 = max_kfs s"
    by blast
  from inv have sz: "if opt_started s then length (frame_states s) < max_states s
      else length (frame_states s) \<le> 4" and big: "Suc (max_states s) < 2 ^ 31"
    by (simp_all add: window_inv_def)
  from sz len5 big have small5: "Suc (length (frame_states s5)) < 2 ^ 31"
    by (auto split: if_splits)
  from big mx have max5: "max_states s5 < 2 ^ 31" "Suc (max_states s5) < 2 ^ 31" by simp_all
  show ?thesis
  proof (cases "opt_started s5 \<and>
      (length (frame_poses s5) > max_kfs s5 \<or> length (frame_states s5) \<ge> max_states s5)")
    case True
    with m have w: "marginalize_window k npc s5 = Inr s'" by (simp add: marginalize_def)
    note ws = marginalize_window_sizes[OF w sorted5(1) small5 max5(1)]
    note wi = marginalize_window_inv[OF w sorted5 small5 max5(1)]
    from wi(3) out5 ws(5) have "length (keyframes_outside s') \<le> max_kfs s'" by auto
    moreover from ws(1,4,6) True have
      "if opt_started s' then length (frame_states s') < max_states s'
       else length (frame_states s') \<le> 4" by simp
    moreover from ws(4) max5 have "Suc (max_states s') < 2 ^ 31" by simp
    ultimately show ?thesis using wi(1,2) by (simp add: window_inv_def)
  next
    case False
    with m have eq: "s' = s5" by (auto simp: marginalize_def split: if_splits)
    have "if opt_started s5 then length (frame_states s5) < max_states s5
       else length (frame_states s5) \<le> 4"
    proof (cases "opt_started s5")
      case True
      with False show ?thesis by auto
    next
      case no: False
      with os5 show ?thesis by auto
    qed
    with sorted5 out5 max5 show ?thesis unfolding eq by (simp add: window_inv_def)
  qed
qed

lemma measure_frames_window_inv:
  assumes "measure_frames k fms s = Inr s'" "window_inv s" "\<forall>fm \<in> set fms. snd fm \<noteq> None"
  shows "window_inv s'"
  using assms
proof (induction fms arbitrary: s)
  case Nil
  then show ?case by simp
next
  case (Cons fm fms)
  from Cons.prems(1) obtain s1 where
    1: "measure_frame k (fst fm) (snd fm) s = Inr s1" and 2: "measure_frames k fms s1 = Inr s'"
    by (cases "measure_frame k (fst fm) (snd fm) s") auto
  from Cons.prems(3) have "snd fm \<noteq> None" by simp
  then have "window_inv s1" by (intro measure_frame_window_inv[OF 1 Cons.prems(2)]) auto
  from Cons.IH[OF 2 this] Cons.prems(3) show ?case by simp
qed

lemma window_inv_kf_ids:
  assumes "window_inv s"
  shows "length (kf_ids s) \<le> max_kfs s + length (frame_states s)"
proof -
  let ?in = "\<lambda>t. t \<in> set (map fst (frame_states s))"
  from assms have d: "distinct (kf_ids s)" and o: "length (keyframes_outside s) \<le> max_kfs s"
    by (auto simp: window_inv_def strict_sorted_iff)
  have "length (kf_ids s) = length (filter ?in (kf_ids s)) + length (keyframes_outside s)"
    unfolding keyframes_outside_def by (rule sum_length_filter_compl[symmetric])
  moreover have "length (filter ?in (kf_ids s)) \<le> length (map fst (frame_states s))"
  proof -
    have "distinct (filter ?in (kf_ids s))" using d by simp
    then have "length (filter ?in (kf_ids s)) = card (set (filter ?in (kf_ids s)))"
      by (simp only: distinct_card)
    also have "\<dots> \<le> card (set (map fst (frame_states s)))"
      by (rule card_mono) auto
    also have "\<dots> \<le> length (map fst (frame_states s))" by (rule card_length)
    finally show ?thesis .
  qed
  ultimately show ?thesis using o by simp
qed

lemma initialize_window_inv:
  assumes "Suc (max_states (KeypointVioEstimator cfg)) < 2 ^ 31"
  shows "window_inv (initialize t T v bg ba (KeypointVioEstimator cfg))
         \<and> last_state_t_ns (initialize t T v bg ba (KeypointVioEstimator cfg))
             \<in> set (map fst (frame_states (initialize t T v bg ba (KeypointVioEstimator cfg))))"
  using assms
  by (simp add: window_inv_def keyframes_outside_def initialize_def KeypointVioEstimator_def)

text \<open>
  Claim C5, as the code has it. In a run of \<^verbatim>\<open>measure\<close> calls from the initialised
  estimator (the first call without a preintegrated measurement, the later ones with
  one), after every call that leaves \<^verbatim>\<open>opt_started\<close> set \<^verbatim>\<open>frame_states\<close> holds at most
  \<^verbatim>\<open>max_states\<close> states, and after every call at most \<^verbatim>\<open>max_kfs\<close> keyframes are outside
  \<^verbatim>\<open>frame_states\<close>: \<^verbatim>\<open>kf_ids\<close> grows only by a frame that is still a state of the window, and
  a call that moves a keyframe out of \<^verbatim>\<open>frame_states\<close> runs the eviction loop until
  \<^verbatim>\<open>kf_ids\<close> is within \<^verbatim>\<open>max_kfs\<close>. So \<^verbatim>\<open>kf_ids\<close> exceeds \<^verbatim>\<open>max_kfs\<close> by no more than the
  number of states in the window. \<^verbatim>\<open>max_states\<close> is below \<open>2^31 - 1\<close>, so that
  \<^verbatim>\<open>states_to_remove\<close> fits its \<^verbatim>\<open>int\<close>.
\<close>

theorem window_sizes_in_run:
  assumes run: "measure_frames k fms (initialize t T v bg ba (KeypointVioEstimator cfg)) = Inr s'"
      and rest: "\<forall>fm \<in> set (tl fms). snd fm \<noteq> None"
      and small: "Suc (max_states (KeypointVioEstimator cfg)) < 2 ^ 31"
  shows "(opt_started s' \<longrightarrow> length (frame_states s') \<le> max_states s')
         \<and> length (keyframes_outside s') \<le> max_kfs s'
         \<and> length (kf_ids s') \<le> max_kfs s' + length (frame_states s')"
proof -
  let ?s = "initialize t T v bg ba (KeypointVioEstimator cfg)"
  from initialize_window_inv[OF small, of t T v bg ba] have
    inv: "window_inv ?s" and ls: "last_state_t_ns ?s \<in> set (map fst (frame_states ?s))"
    by simp_all
  have "window_inv s'"
  proof (cases fms)
    case Nil
    with run inv show ?thesis by simp
  next
    case (Cons fm fms')
    with run obtain s1 where
      1: "measure_frame k (fst fm) (snd fm) ?s = Inr s1" and
      2: "measure_frames k fms' s1 = Inr s'"
      by (cases "measure_frame k (fst fm) (snd fm) ?s") auto
    from ls have "window_inv s1" by (intro measure_frame_window_inv[OF 1 inv]) simp
    from measure_frames_window_inv[OF 2 this] rest Cons show ?thesis by simp
  qed
  from window_inv_kf_ids[OF this] this show ?thesis
    by (auto simp: window_inv_def split: if_splits)
qed

text \<open>
  Runs of several frames are evaluated with the following equations.
\<close>

lemma lm_loop_numeral: "lm_loop k aom lin (numeral n) st =
     (if fst (snd st) \<or> snd (snd st) then Inr st
      else case lm_trial k aom lin st of
             Inl e \<Rightarrow> Inl e
           | Inr st' \<Rightarrow> lm_loop k aom lin (pred_numeral n) st')"
  by (simp add: numeral_eq_Suc)

lemma optimize_iters_numeral: "optimize_iters k aom (numeral n) iter s =
     (case (if vio_use_lm (config s)
            then lm_loop k aom (linearize k aom s) 10 (s, False, False)
            else gn_step k aom (linearize k aom s) s) of
        Inl e \<Rightarrow> Inl e
      | Inr st \<Rightarrow>
          (let s1 = fst st;
               s2 = (if iter = vio_filter_iteration (config s1)
                     then s1\<lparr>lmdb := filterOutliers k s1\<rparr> else s1)
           in if snd (snd st) then Inr s2 else optimize_iters k aom (pred_numeral n) (iter + 1) s2))"
  by (simp add: numeral_eq_Suc)

lemma set_emplace_append: "\<forall>y \<in> set xs. y < x \<Longrightarrow> set_emplace x xs = xs @ [x]"
  by (induction xs) auto

lemma emplace_range_append:
  "\<forall>y \<in> set idx. y < lo \<Longrightarrow> emplace_range lo hi idx = idx @ [lo ..< hi]"
proof (induction "hi - lo" arbitrary: lo idx)
  case 0
  then show ?case by (simp add: emplace_range_def)
next
  case (Suc n)
  then have lt: "lo < hi" by simp
  have "emplace_range lo hi idx = emplace_range (Suc lo) hi (set_emplace lo idx)"
    using lt by (simp add: emplace_range_def upt_conv_Cons)
  also have "set_emplace lo idx = idx @ [lo]" using Suc.prems by (rule set_emplace_append)
  also have "emplace_range (Suc lo) hi (idx @ [lo]) = (idx @ [lo]) @ [Suc lo ..< hi]"
    using Suc.hyps(2) Suc.prems by (intro Suc.hyps(1)) auto
  finally show ?case using lt by (simp add: upt_conv_Cons)
qed

lemma cols_replicate: "cols (replicate n r) = (if n = 0 then 0 else length r)"
  by (cases n) (simp_all add: cols_def)

lemma cols_Cons: "cols (r # rs) = length r"
  by (simp add: cols_def)

lemmas trace_eval = measure_frames.simps example_trace_def example_input_def example_start_def
  example_small_config_def example_pose_def upto.simps
  measure_frame_def propagate_def bind_res_def association_empty_def
  keyframe_step_def decide_take_kf_def keyframe_ratio_low_def dbl_div_def size_t_of_int_def
  optimize_def marginalize_def example_kernels_def example_config_def example_linearization_def
  KeypointVioEstimator_def initialize_def
  POSE_SIZE_def POSE_VEL_BIAS_SIZE_def AbsOrderMap_empty_def diag_matrix_def
  lm_loop_numeral optimize_iters_numeral lm_trial_def gn_step_def apply_increment_def maxCoeff_def
  damped_def error_total_def after_error_total_def update_points_def segment_def
  same_order_def aom_append_def aom_advance_def check_state_order_def map_at_def at_map_def vec_at_def
  marginalize_window_def last_state_to_marg_def states_to_remove_small evict_loop.simps evict_pass_def
  choose_id_to_marg_def covis_scan.simps covis_evictable_def cpp_div_def size_minus_2_small
  obs_to_lin_def pin_linearization_def marg_order_new_def mat_vec_def
  removeKeyframes_def map_erase_def set_erase_def PoseStateWithLin_of_def
  triangulate_landmark_def collect_kp_obs_def triangulate_candidate_def try_candidate_def
  getPoseStateWithLin_def
  squaredNorm_def min_triang_distance2_def triangulation_accepted_def addLandmark_def addObservation_def
  count_up_def emplace_range_append cols_replicate cols_Cons Let_def

theorem window_sizes_in_run_witness:
  "(case measure_frames example_kernels (example_trace 17) example_start of
      Inl e \<Rightarrow> False
    | Inr s \<Rightarrow> opt_started s \<and> length (frame_states s) \<le> max_states s
               \<and> length (keyframes_outside s) \<le> max_kfs s
               \<and> length (kf_ids s) \<le> max_kfs s + length (frame_states s))"
proof -
  let ?r = "measure_frames example_kernels (example_trace 17) example_start"
  have "case ?r of Inl e \<Rightarrow> False | Inr s \<Rightarrow> opt_started s"
    by (simp add: trace_eval)
  then obtain s' where r: "?r = Inr s'" and started: "opt_started s'"
    by (cases ?r) auto
  have rest: "\<forall>fm \<in> set (tl (example_trace 17)). snd fm \<noteq> None"
    by (simp add: example_trace_def example_input_def upto.simps)
  have small: "Suc (max_states (KeypointVioEstimator example_small_config)) < 2 ^ 31"
    by (simp add: KeypointVioEstimator_def example_small_config_def example_config_def
          size_t_of_int_def)
  from window_sizes_in_run[OF r[unfolded example_start_def] rest small] started r
  show ?thesis by simp
qed


text \<open>
  Claim C5 as stated fails for \<^verbatim>\<open>kf_ids\<close>. With \<^verbatim>\<open>max_kfs = 2\<close> and \<^verbatim>\<open>max_states = 3\<close>,
  frames 1, 8 and 15 of the run become keyframes. In the call for frame 15 the
  optimisation has long started, the state that leaves \<^verbatim>\<open>frame_states\<close> is that of
  frame 13, not a keyframe, so \<^verbatim>\<open>states_to_marg_vel_bias\<close> is empty, the eviction loop
  is not entered and the call returns with three keyframes, of which keyframe 15 is still
  a state of the window.
\<close>

theorem kf_bound_counterexample:
  "(case measure_frames example_kernels (example_trace 15) example_start of
      Inl e \<Rightarrow> False
    | Inr s \<Rightarrow> opt_started s \<and> kf_ids s = [1, 8, 15] \<and> max_kfs s = 2
               \<and> \<not> length (kf_ids s) \<le> max_kfs s)"
  by (simp add: trace_eval)

subsection \<open>What marginalisation relinearises\<close>

lemma evict_pass_covers:
  assumes "evict_pass npc npk fp fs ev = Inr ev'"
      and "K \<subseteq> set (ev_kf_ids ev) \<union> set (kfs_to_marg ev)"
  shows "K \<subseteq> set (ev_kf_ids ev') \<union> set (kfs_to_marg ev')"
  using assms by (auto simp: evict_pass_def bind_res_def split: sum.splits)

text \<open>
  Claim C7. When \<^verbatim>\<open>marginalize\<close> runs its body, the prior \<^verbatim>\<open>marg_H\<close> it leaves is computed
  from the observation map \<^verbatim>\<open>obs_to_lin\<close> handed to the lineariser, the map built at
  lines 636--651 from a set \<^verbatim>\<open>kfs_to_marg\<close> that holds every keyframe evicted from
  \<^verbatim>\<open>kf_ids\<close> in this call. Its observations are exactly those of the landmark database
  whose host frame is in \<^verbatim>\<open>kfs_to_marg\<close> and whose target frame is not after
  \<^verbatim>\<open>last_state_to_marg\<close>; none of them is hosted by a keyframe that stays in \<^verbatim>\<open>kf_ids\<close>.
\<close>

theorem relinearised_observations:
  assumes run: "marginalize_window k npc s = Inr s'"
  shows "\<exists>last_t aom kfs keep marg.
      last_state_to_marg s = Inr last_t
    \<and> marg_H s' = fst (marginalizeHelper k aom (obs_to_lin kfs last_t (obs (lmdb s))) keep marg
                        (s\<lparr>kf_ids := kf_ids s'\<rparr>))
    \<and> set (kf_ids s) - set (kf_ids s') \<subseteq> set kfs
    \<and> obs_entries (obs_to_lin kfs last_t (obs (lmdb s))) =
         {e \<in> obs_entries (obs (lmdb s)).
            frame_id (fst e) \<in> set kfs \<and> frame_id (fst (snd e)) \<le> last_t}
    \<and> (\<forall>e \<in> obs_entries (obs_to_lin kfs last_t (obs (lmdb s))).
          frame_id (fst e) \<notin> set (kf_ids s'))"
proof -
  from marginalize_window_shape[OF run] obtain last_t aom1 vb all aom ev idx fs s2 where
    l: "last_state_to_marg s = Inr last_t" and
    e: "evict_loop (max_kfs s) vb npc (num_points_kf s) (frame_poses s) (frame_states s)
          \<lparr>ev_kf_ids = kf_ids s, kfs_to_marg = [],
           poses_to_marg = filter (\<lambda>t. t \<notin> set (kf_ids s)) (map fst (frame_poses s))\<rparr>
          = Some (Inr ev)" and
    d: "demote_states vb (erase_states_all all
          (s\<lparr>kf_ids := ev_kf_ids ev, frame_states := fs\<rparr>)) = Inr s2" and
    kf: "kf_ids s' = kf_ids (erase_poses (poses_to_marg ev) s2)" and
    H: "marg_H s' = fst (marginalizeHelper k aom
                       (obs_to_lin (kfs_to_marg ev) last_t (obs (lmdb s))) (fst idx) (snd idx)
                       (s\<lparr>kf_ids := ev_kf_ids ev\<rparr>))"
    by blast
  have kf': "kf_ids s' = ev_kf_ids ev"
    using kf erase_poses_fields[of "poses_to_marg ev" s2] demote_states_fields[OF d]
      erase_states_all_fields[of all "s\<lparr>kf_ids := ev_kf_ids ev, frame_states := fs\<rparr>"]
    by simp
  have disj: "set (ev_kf_ids ev) \<inter> set (kfs_to_marg ev) = {}"
    using evict_loop_rule[OF e,
        where I = "\<lambda>ev. set (ev_kf_ids ev) \<inter> set (kfs_to_marg ev) = {}"]
      evict_pass_disjoint
    by auto
  have cov: "set (kf_ids s) \<subseteq> set (ev_kf_ids ev) \<union> set (kfs_to_marg ev)"
    using evict_loop_rule[OF e,
        where I = "\<lambda>ev. set (kf_ids s) \<subseteq> set (ev_kf_ids ev) \<union> set (kfs_to_marg ev)"]
      evict_pass_covers
    by auto
  let ?om = "obs_to_lin (kfs_to_marg ev) last_t (obs (lmdb s))"
  have ent: "obs_entries ?om =
         {e \<in> obs_entries (obs (lmdb s)).
            frame_id (fst e) \<in> set (kfs_to_marg ev) \<and> frame_id (fst (snd e)) \<le> last_t}"
    by (rule obs_entries_obs_to_lin)
  have surv: "\<forall>e \<in> obs_entries ?om. frame_id (fst e) \<notin> set (kf_ids s')"
    unfolding ent kf' using disj by auto
  from cov have ev: "set (kf_ids s) - set (kf_ids s') \<subseteq> set (kfs_to_marg ev)"
    unfolding kf' by auto
  from H have H': "marg_H s' = fst (marginalizeHelper k aom ?om (fst idx) (snd idx)
                        (s\<lparr>kf_ids := kf_ids s'\<rparr>))"
    unfolding kf' .
  from l H' ev ent surv show ?thesis by blast
qed

theorem relinearised_observations_witness:
  "\<exists>kfs. 1 \<in> set kfs \<and> 2 \<notin> set kfs \<and>
     obs_entries (obs_to_lin kfs 4 (obs (lmdb example_full_window))) =
       {(\<lparr>frame_id = 1, cam_id = 0\<rparr>, \<lparr>frame_id = 1, cam_id = 1\<rparr>, \<lparr>kpt_id = 7, pos = (0, 0)\<rparr>)}"
proof -
  let ?r = "marginalize_window example_kernels [2 \<mapsto> 1] example_full_window"
  have ev: "(case ?r of Inl e \<Rightarrow> False | Inr s' \<Rightarrow> kf_ids s' = [2, 3])
            \<and> last_state_to_marg example_full_window = Inr 4"
    by (simp add: trace_eval example_full_window_def example_state_def)
  then obtain s' where run: "?r = Inr s'" and kf: "kf_ids s' = [2, 3]"
    by (cases ?r) auto
  from ev have l: "last_state_to_marg example_full_window = Inr 4" by simp
  let ?om = "obs (lmdb example_full_window)"
  from relinearised_observations[OF run] obtain last_t kfs where
    l': "last_state_to_marg example_full_window = Inr last_t" and
    ev: "set (kf_ids example_full_window) - set (kf_ids s') \<subseteq> set kfs" and
    ent: "obs_entries (obs_to_lin kfs last_t ?om) =
           {e \<in> obs_entries ?om. frame_id (fst e) \<in> set kfs \<and> frame_id (fst (snd e)) \<le> last_t}" and
    surv: "\<forall>e \<in> obs_entries (obs_to_lin kfs last_t ?om). frame_id (fst e) \<notin> set (kf_ids s')"
    by blast
  from l l' have last_t: "last_t = 4" by simp
  have kf0: "kf_ids example_full_window = [1, 2, 3]"
    by (simp add: example_full_window_def)
  have om: "?om = [(\<lparr>frame_id = 1, cam_id = 0\<rparr>,
                            [(\<lparr>frame_id = 1, cam_id = 1\<rparr>, [\<lparr>kpt_id = 7, pos = (0, 0)\<rparr>]),
                             (\<lparr>frame_id = 5, cam_id = 0\<rparr>, [\<lparr>kpt_id = 7, pos = (1, 0)\<rparr>])]),
                         (\<lparr>frame_id = 2, cam_id = 0\<rparr>,
                            [(\<lparr>frame_id = 3, cam_id = 0\<rparr>, [\<lparr>kpt_id = 9, pos = (0, 1)\<rparr>])])]"
    by (simp add: example_full_window_def)
  have "(1::int) \<in> set [1, 2, 3] - set [2, 3]" by simp
  with ev have one: "1 \<in> set kfs" unfolding kf kf0 by (rule subsetD)
  have two: "2 \<notin> set kfs"
  proof
    assume a: "2 \<in> set kfs"
    have "obs_to_lin kfs 4 ?om =
        [(\<lparr>frame_id = 1, cam_id = 0\<rparr>,
            [(\<lparr>frame_id = 1, cam_id = 1\<rparr>, [\<lparr>kpt_id = 7, pos = (0, 0)\<rparr>])]),
         (\<lparr>frame_id = 2, cam_id = 0\<rparr>,
            [(\<lparr>frame_id = 3, cam_id = 0\<rparr>, [\<lparr>kpt_id = 9, pos = (0, 1)\<rparr>])])]"
      unfolding om by (simp add: obs_to_lin_def one a)
    then have "(\<lparr>frame_id = 2, cam_id = 0\<rparr>, \<lparr>frame_id = 3, cam_id = 0\<rparr>, \<lparr>kpt_id = 9, pos = (0, 1)\<rparr>)
        \<in> obs_entries (obs_to_lin kfs last_t ?om)"
      unfolding last_t by (simp add: in_obs_entries)
    with surv have "frame_id (fst (\<lparr>frame_id = 2, cam_id = 0\<rparr>, \<lparr>frame_id = 3, cam_id = (0::nat)\<rparr>,
        \<lparr>kpt_id = 9, pos = (0, 1)\<rparr>)) \<notin> set (kf_ids s')"
      by (rule bspec)
    then show False unfolding kf by simp
  qed
  have "obs_to_lin kfs 4 ?om =
        [(\<lparr>frame_id = 1, cam_id = 0\<rparr>,
            [(\<lparr>frame_id = 1, cam_id = 1\<rparr>, [\<lparr>kpt_id = 7, pos = (0, 0)\<rparr>])])]"
    unfolding om by (simp add: obs_to_lin_def one two)
  then have "obs_entries (obs_to_lin kfs 4 ?om) =
       {(\<lparr>frame_id = 1, cam_id = 0\<rparr>, \<lparr>frame_id = 1, cam_id = 1\<rparr>, \<lparr>kpt_id = 7, pos = (0, 0)\<rparr>)}"
    by (simp add: obs_entries_def)
  with one two show ?thesis by blast
qed

subsection \<open>Where a division by zero can come from\<close>















































subsection \<open>The hosts of the landmarks during a run\<close>

























end
